theory Spec2Isabelle
  imports Main
begin

section \<open>Exceptions\<close>

text \<open>
  The exception classes that \<^verbatim>\<open>python_sample.py\<close> can see, at the granularity of its
  \<^verbatim>\<open>except\<close> clauses. A subclass is represented by the class whose handler catches
  it: \<^verbatim>\<open>UnicodeDecodeError\<close>, \<^verbatim>\<open>JSONDecodeError\<close> and pandas'
  \<^verbatim>\<open>OutOfBoundsDatetime\<close> are \<open>ValueError\<close>; \<^verbatim>\<open>gzip.BadGzipFile\<close> is
  \<open>OSError\<close>. \<open>OverflowError\<close> is not a \<^verbatim>\<open>ValueError\<close>. \<open>ClientError\<close> carries
  the text printed for it.
\<close>

datatype py_exception =
    ClientError string
  | KeyError
  | ValueError
  | NameError
  | IndexError
  | TypeError
  | OverflowError
  | OSError
  | EOFError

section \<open>String primitives of the Python library\<close>

text \<open>
  Strings are lists of 8-bit characters, read as the code points below 256.
  \<^verbatim>\<open>os.path.basename(p)\<close> is \<^verbatim>\<open>p[p.rfind('/') + 1:]\<close>.
\<close>

definition basename :: "string \<Rightarrow> string" where
  "basename p = rev (takeWhile (\<lambda>c. c \<noteq> CHR ''/'') (rev p))"

text \<open>\<^verbatim>\<open>s.split(sep)\<close> for a one-character separator: never empty, \<^verbatim>\<open>''.split('_') == ['']\<close>.\<close>

fun py_split :: "char \<Rightarrow> string \<Rightarrow> string list" where
  "py_split sep [] = [[]]"
| "py_split sep (c # cs) =
     (if c = sep then [] # py_split sep cs
      else (case py_split sep cs of
              [] \<Rightarrow> [[c]]
            | w # ws \<Rightarrow> (c # w) # ws))"

text \<open>\<^verbatim>\<open>sep.join(parts)\<close>.\<close>

fun py_join :: "char \<Rightarrow> string list \<Rightarrow> string" where
  "py_join sep [] = []"
| "py_join sep [w] = w"
| "py_join sep (w # v # ws) = w @ sep # py_join sep (v # ws)"

text \<open>
  \<^verbatim>\<open>s.rsplit(sep, n)\<close>: at most \<open>n\<close> splits, taken from the right; what is left of them
  stays one piece.
\<close>

definition py_rsplit :: "char \<Rightarrow> nat \<Rightarrow> string \<Rightarrow> string list" where
  "py_rsplit sep n s =
     (let parts = py_split sep s
      in if length parts \<le> Suc n then parts
         else py_join sep (take (length parts - n) parts) # drop (length parts - n) parts)"

text \<open>
  \<^verbatim>\<open>int(s)\<close> on a string, base 10: surrounding whitespace is stripped, one sign is
  allowed, and the digits may be grouped by single underscores. A string of more than
  4300 digits (the default limit of the interpreter) and anything else raises
  \<^verbatim>\<open>ValueError\<close>. The whitespace of \<^verbatim>\<open>int\<close> is narrower than that of \<^verbatim>\<open>str.isspace\<close>:
  among the code points below 256 it is tab to carriage return, the space, and the two
  above 127 (next line, no-break space); the separators 28 to 31 are not part of it.
\<close>

definition is_space :: "char \<Rightarrow> bool" where
  "is_space c =
     (let n = (of_char c :: nat)
      in (9 \<le> n \<and> n \<le> 13) \<or> n = 32 \<or> n = 133 \<or> n = 160)"

definition is_digit :: "char \<Rightarrow> bool" where
  "is_digit c = (let n = (of_char c :: nat) in 48 \<le> n \<and> n \<le> 57)"

definition digit_val :: "char \<Rightarrow> int" where
  "digit_val c = int (of_char c) - 48"

definition py_strip :: "string \<Rightarrow> string" where
  "py_strip s = rev (dropWhile is_space (rev (dropWhile is_space s)))"

definition digits_value :: "string \<Rightarrow> int" where
  "digits_value ds = foldl (\<lambda>acc c. acc * 10 + digit_val c) 0 ds"

definition parse_digits :: "string \<Rightarrow> py_exception + int" where
  "parse_digits s =
     (let groups = py_split (CHR ''_'') s
      in if (\<forall>g \<in> set groups. g \<noteq> [] \<and> (\<forall>c \<in> set g. is_digit c)) \<and>
            length (concat groups) \<le> 4300
         then Inr (digits_value (concat groups))
         else Inl ValueError)"

definition py_int :: "string \<Rightarrow> py_exception + int" where
  "py_int s =
     (case py_strip s of
        [] \<Rightarrow> Inl ValueError
      | c # r \<Rightarrow>
          if c = CHR ''-'' then
            (case parse_digits r of Inl e \<Rightarrow> Inl e | Inr v \<Rightarrow> Inr (- v))
          else if c = CHR ''+'' then parse_digits r
          else parse_digits (c # r))"

section \<open>The \<^verbatim>\<open>datetime\<close> library\<close>

text \<open>
  \<^verbatim>\<open>datetime(year, month, day, hour, minute, second)\<close> takes its arguments as C
  integers and raises \<^verbatim>\<open>OverflowError\<close> for one that does not fit; then it checks them
  and raises \<^verbatim>\<open>ValueError\<close> outside \<^verbatim>\<open>MINYEAR..MAXYEAR\<close>, the month's length and the
  clock's ranges. For an aware value in UTC, \<^verbatim>\<open>timestamp()\<close> is the distance to
  1970-01-01T00:00:00 in seconds, computed from the proleptic Gregorian ordinal.
\<close>

definition is_leap :: "int \<Rightarrow> bool" where
  "is_leap y = (y mod 4 = 0 \<and> (y mod 100 \<noteq> 0 \<or> y mod 400 = 0))"

definition days_in_month :: "int \<Rightarrow> int \<Rightarrow> int" where
  "days_in_month y m =
     (if m = 2 then (if is_leap y then 29 else 28)
      else if m = 4 \<or> m = 6 \<or> m = 9 \<or> m = 11 then 30
      else 31)"

definition days_before_year :: "int \<Rightarrow> int" where
  "days_before_year y =
     (let y1 = y - 1 in y1 * 365 + y1 div 4 - y1 div 100 + y1 div 400)"

definition days_before_month :: "int \<Rightarrow> int \<Rightarrow> int" where
  "days_before_month y m =
     (\<Sum>k \<leftarrow> [1 ..< nat m]. days_in_month y (int k))"

definition ymd2ord :: "int \<Rightarrow> int \<Rightarrow> int \<Rightarrow> int" where
  "ymd2ord y m d = days_before_year y + days_before_month y m + d"

definition valid_datetime :: "int \<Rightarrow> int \<Rightarrow> int \<Rightarrow> int \<Rightarrow> int \<Rightarrow> int \<Rightarrow> bool" where
  "valid_datetime y mo d h mi s =
     (1 \<le> y \<and> y \<le> 9999 \<and> 1 \<le> mo \<and> mo \<le> 12 \<and>
      1 \<le> d \<and> d \<le> days_in_month y mo \<and>
      0 \<le> h \<and> h \<le> 23 \<and> 0 \<le> mi \<and> mi \<le> 59 \<and> 0 \<le> s \<and> s \<le> 59)"

definition utc_timestamp :: "int \<Rightarrow> int \<Rightarrow> int \<Rightarrow> int \<Rightarrow> int \<Rightarrow> int \<Rightarrow> int" where
  "utc_timestamp y mo d h mi s =
     (ymd2ord y mo d - 719163) * 86400 + h * 3600 + mi * 60 + s"

definition c_int :: "int \<Rightarrow> bool" where
  "c_int n = (- (2 ^ 31) \<le> n \<and> n < 2 ^ 31)"

definition datetime_timestamp ::
  "int \<Rightarrow> int \<Rightarrow> int \<Rightarrow> int \<Rightarrow> int \<Rightarrow> int \<Rightarrow> py_exception + int" where
  "datetime_timestamp y mo d h mi s =
     (if \<not> (c_int y \<and> c_int mo \<and> c_int d \<and> c_int h \<and> c_int mi \<and> c_int s)
      then Inl OverflowError
      else if valid_datetime y mo d h mi s then Inr (utc_timestamp y mo d h mi s)
      else Inl ValueError)"

section \<open>\<^verbatim>\<open>get_last_timestamp\<close>\<close>

text \<open>
  \<^verbatim>\<open>a, b, c = map(int, s.split('-'))\<close>: the unpacking pulls the three conversions one
  after the other and then asks for a fourth element; every failure is a
  \<^verbatim>\<open>ValueError\<close>. The numbers reach \<^verbatim>\<open>datetime\<close> only when both unpackings have
  succeeded.
\<close>

definition int_triple :: "string \<Rightarrow> py_exception + (int \<times> int \<times> int)" where
  "int_triple s =
     (case py_split (CHR ''-'') s of
        [a, b, c] \<Rightarrow>
          (case py_int a of Inl e \<Rightarrow> Inl e | Inr x \<Rightarrow>
          (case py_int b of Inl e \<Rightarrow> Inl e | Inr y \<Rightarrow>
          (case py_int c of Inl e \<Rightarrow> Inl e | Inr z \<Rightarrow> Inr (x, y, z))))
      | _ \<Rightarrow> Inl ValueError)"

definition get_last_timestamp :: "string \<Rightarrow> py_exception + int" where
  "get_last_timestamp filename =
     (let stem = hd (py_rsplit (CHR ''.'') 2 (basename filename))
      in case py_split (CHR ''_'') stem of
           [date, time, _] \<Rightarrow>
             (case int_triple date of Inl e \<Rightarrow> Inl e | Inr (year, month, day) \<Rightarrow>
             (case int_triple time of Inl e \<Rightarrow> Inl e | Inr (hour, minute, second) \<Rightarrow>
                datetime_timestamp year month day hour minute second))
         | _ \<Rightarrow> Inl ValueError)"

section \<open>The world outside the program\<close>

text \<open>
  The state that the program reads and changes: the file \<^verbatim>\<open>output.csv\<close> (\<open>None\<close> while
  it does not exist), the lines printed on standard output, and a log of the calls made
  to the object store, in the order they were made. The log is what makes ``no call was
  made'' a statement about a run.
\<close>

datatype cell = CTime int | CNaT | CStr string | CNum int | CNull

datatype csv_line = Header "string list" | Row "(string \<times> cell) list"

datatype s3_call = ListObjectsV2 string string "string option" | GetObject string string

record world =
  out_file :: "csv_line list option"
  stdout :: "string list"
  s3_calls :: "s3_call list"

definition print :: "string \<Rightarrow> world \<Rightarrow> world" where
  "print msg w = w\<lparr>stdout := stdout w @ [msg]\<rparr>"

definition log_call :: "s3_call \<Rightarrow> world \<Rightarrow> world" where
  "log_call c w = w\<lparr>s3_calls := s3_calls w @ [c]\<rparr>"

text \<open>
  A page of \<^verbatim>\<open>list_objects_v2\<close>: the response dictionary with its two optional entries.
  Every element of \<^verbatim>\<open>Contents\<close> carries its \<^verbatim>\<open>Key\<close>.
\<close>

record s3_object =
  Key :: string

record list_response =
  Contents :: "s3_object list option"
  NextContinuationToken :: "string option"

text \<open>
  A table as pandas holds it: the column labels in order and the rows, each row giving a
  cell for every label (\<open>CNull\<close> where the record had no such field). A column of
  time stamps holds \<open>CTime\<close> (nanoseconds since the epoch) and \<open>CNaT\<close>.
\<close>

record dataframe =
  columns :: "string list"
  rows :: "(string \<Rightarrow> cell) list"

text \<open>
  The archive and the libraries that decode it, as the program meets them: the two calls
  of the S3 client (bucket, prefix, continuation token; bucket, key, giving the bytes of
  \<^verbatim>\<open>response['Body'].read()\<close>), \<^verbatim>\<open>gzip.open(..., 'rt').read()\<close> and
  \<^verbatim>\<open>pd.read_json(..., lines=True)\<close>. Each returns a value or raises. The archive does not
  change during a run, so the calls are functions of their arguments.
\<close>

record s3_env =
  list_objects_v2 :: "string \<Rightarrow> string \<Rightarrow> string option \<Rightarrow> py_exception + list_response"
  get_object :: "string \<Rightarrow> string \<Rightarrow> py_exception + string"
  gzip_read :: "string \<Rightarrow> py_exception + string"
  read_json :: "string \<Rightarrow> py_exception + dataframe"

section \<open>\<^verbatim>\<open>get_s3_keys\<close>\<close>

text \<open>
  The \<^verbatim>\<open>for obj in resp['Contents']\<close> loop: a key whose time stamp is before
  \<open>start_time\<close> is skipped, every other key is appended. \<^verbatim>\<open>get_last_timestamp\<close> is
  called with no handler around it, so its exception leaves the loop.
\<close>

fun scan_page :: "int \<Rightarrow> s3_object list \<Rightarrow> string list \<Rightarrow> py_exception + string list" where
  "scan_page start_time [] keys = Inr keys"
| "scan_page start_time (obj # objs) keys =
     (case get_last_timestamp (Key obj) of
        Inl e \<Rightarrow> Inl e
      | Inr t \<Rightarrow>
          if t < start_time then scan_page start_time objs keys
          else scan_page start_time objs (keys @ [Key obj]))"

text \<open>
  The \<^verbatim>\<open>while True\<close> loop, with \<open>token\<close> the \<^verbatim>\<open>ContinuationToken\<close> entry of
  \<^verbatim>\<open>kwargs\<close>. It ends at the first page without \<^verbatim>\<open>NextContinuationToken\<close>; a store
  that hands out tokens for ever keeps it running, which is the value \<open>None\<close>.
  \<^verbatim>\<open>resp['Contents']\<close> raises \<^verbatim>\<open>KeyError\<close> when the entry is missing.
\<close>

partial_function (option) list_pages ::
  "s3_env \<Rightarrow> string \<Rightarrow> string \<Rightarrow> int \<Rightarrow> string option \<Rightarrow> string list \<Rightarrow> world \<Rightarrow>
   ((py_exception + string list) \<times> world) option" where
  "list_pages env bucket prefix start_time token keys w =
     (let w1 = log_call (ListObjectsV2 bucket prefix token) w
      in case list_objects_v2 env bucket prefix token of
           Inl e \<Rightarrow> Some (Inl e, w1)
         | Inr resp \<Rightarrow>
             (case Contents resp of
                None \<Rightarrow> Some (Inl KeyError, w1)
              | Some objs \<Rightarrow>
                  (case scan_page start_time objs keys of
                     Inl e \<Rightarrow> Some (Inl e, w1)
                   | Inr keys' \<Rightarrow>
                       (case NextContinuationToken resp of
                          None \<Rightarrow> Some (Inr keys', w1)
                        | Some t \<Rightarrow>
                            list_pages env bucket prefix start_time (Some t) keys' w1))))"

declare list_pages.simps [code]

definition get_s3_keys ::
  "s3_env \<Rightarrow> string \<Rightarrow> string \<Rightarrow> int \<Rightarrow> world \<Rightarrow> ((py_exception + string list) \<times> world) option" where
  "get_s3_keys env bucket prefix start_time w =
     list_pages env bucket prefix start_time None [] w"

section \<open>The pandas operations that \<^verbatim>\<open>retrieve_objects\<close> uses\<close>

text \<open>
  \<^verbatim>\<open>pd.to_datetime(t, unit='s')\<close>: the instant in nanoseconds, held in 64 bits; a value
  that does not fit raises \<^verbatim>\<open>OutOfBoundsDatetime\<close>, a \<^verbatim>\<open>ValueError\<close>.
\<close>

definition to_datetime :: "int \<Rightarrow> py_exception + int" where
  "to_datetime t =
     (let ns = t * 1000000000
      in if - (2 ^ 63) < ns \<and> ns < 2 ^ 63 then Inr ns else Inl ValueError)"

text \<open>\<^verbatim>\<open>df[name]\<close> raises \<^verbatim>\<open>KeyError\<close> for a label that is not a column.\<close>

definition column :: "dataframe \<Rightarrow> string \<Rightarrow> py_exception + cell list" where
  "column df name =
     (if name \<in> set (columns df) then Inr (map (\<lambda>r. r name) (rows df)) else Inl KeyError)"

text \<open>\<^verbatim>\<open>.iloc[0]\<close> and \<^verbatim>\<open>.iloc[-1]\<close> raise \<^verbatim>\<open>IndexError\<close> on an empty column.\<close>

definition iloc_first :: "cell list \<Rightarrow> py_exception + cell" where
  "iloc_first xs = (case xs of [] \<Rightarrow> Inl IndexError | x # _ \<Rightarrow> Inr x)"

definition iloc_last :: "cell list \<Rightarrow> py_exception + cell" where
  "iloc_last xs = (case xs of [] \<Rightarrow> Inl IndexError | _ # _ \<Rightarrow> Inr (last xs))"

text \<open>
  Comparing a cell with a \<^verbatim>\<open>Timestamp\<close>: a time compares by its instant, \<^verbatim>\<open>NaT\<close>
  compares false, and a cell of another type raises \<^verbatim>\<open>TypeError\<close>.
\<close>

fun cell_cmp :: "(int \<Rightarrow> int \<Rightarrow> bool) \<Rightarrow> cell \<Rightarrow> int \<Rightarrow> py_exception + bool" where
  "cell_cmp rel (CTime t) ts = Inr (rel t ts)"
| "cell_cmp rel CNaT ts = Inr False"
| "cell_cmp rel c ts = Inl TypeError"

fun series_cmp :: "(int \<Rightarrow> int \<Rightarrow> bool) \<Rightarrow> cell list \<Rightarrow> int \<Rightarrow> py_exception + bool list" where
  "series_cmp rel [] ts = Inr []"
| "series_cmp rel (c # cs) ts =
     (case cell_cmp rel c ts of
        Inl e \<Rightarrow> Inl e
      | Inr b \<Rightarrow> (case series_cmp rel cs ts of Inl e \<Rightarrow> Inl e | Inr bs \<Rightarrow> Inr (b # bs)))"

text \<open>\<^verbatim>\<open>df[mask]\<close>: the rows at which the mask is true, in their order.\<close>

definition mask_rows :: "dataframe \<Rightarrow> bool list \<Rightarrow> dataframe" where
  "mask_rows df keep = df\<lparr>rows := map fst (filter snd (zip (rows df) keep))\<rparr>"

text \<open>\<^verbatim>\<open>df.empty\<close>: some axis has length zero.\<close>

definition df_empty :: "dataframe \<Rightarrow> bool" where
  "df_empty df = (rows df = [] \<or> columns df = [])"

text \<open>
  \<^verbatim>\<open>df.to_csv(f, header=h, index=False)\<close> on a file opened for appending: the labels as
  one line when \<open>h\<close> holds, then one line for every row with the cells in column order.
  A line of the model keeps the label next to each cell.
\<close>

definition file_lines :: "world \<Rightarrow> csv_line list" where
  "file_lines w = (case out_file w of None \<Rightarrow> [] | Some ls \<Rightarrow> ls)"

definition csv_rows :: "dataframe \<Rightarrow> csv_line list" where
  "csv_rows df = map (\<lambda>r. Row (map (\<lambda>c. (c, r c)) (columns df))) (rows df)"

definition to_csv :: "dataframe \<Rightarrow> bool \<Rightarrow> world \<Rightarrow> world" where
  "to_csv df header w =
     w\<lparr>out_file :=
         Some (file_lines w @ (if header then [Header (columns df)] else []) @ csv_rows df)\<rparr>"

section \<open>\<^verbatim>\<open>retrieve_objects\<close>\<close>

text \<open>The first three statements of the \<^verbatim>\<open>try\<close> block: fetch, decompress, parse.\<close>

definition fetch_frame :: "s3_env \<Rightarrow> string \<Rightarrow> string \<Rightarrow> py_exception + dataframe" where
  "fetch_frame env bucket key =
     (case get_object env bucket key of
        Inl e \<Rightarrow> Inl e
      | Inr body \<Rightarrow>
          (case gzip_read env body of
             Inl e \<Rightarrow> Inl e
           | Inr text \<Rightarrow> read_json env text))"

text \<open>
  The \<^verbatim>\<open>if\<close>/\<^verbatim>\<open>elif\<close> on the last and the first time stamp: \<^verbatim>\<open>continue\<close>, \<^verbatim>\<open>break\<close>,
  or go on to the filter. The first time stamp is read only when the first test fails.
\<close>

datatype position = Before | After | Overlapping

definition window_position :: "dataframe \<Rightarrow> int \<Rightarrow> int \<Rightarrow> py_exception + position" where
  "window_position df start_time end_time =
     (case column df ''Timestamp'' of Inl e \<Rightarrow> Inl e | Inr ts \<Rightarrow>
     (case iloc_last ts of Inl e \<Rightarrow> Inl e | Inr l \<Rightarrow>
     (case cell_cmp (<) l start_time of Inl e \<Rightarrow> Inl e | Inr b \<Rightarrow>
        if b then Inr Before
        else
         (case iloc_first ts of Inl e \<Rightarrow> Inl e | Inr f \<Rightarrow>
         (case cell_cmp (>) f end_time of Inl e \<Rightarrow> Inl e | Inr a \<Rightarrow>
            if a then Inr After else Inr Overlapping)))))"

text \<open>The two filters: the trades only, then the closed time window.\<close>

definition select_trades :: "dataframe \<Rightarrow> py_exception + dataframe" where
  "select_trades df =
     (case column df ''Type'' of
        Inl e \<Rightarrow> Inl e
      | Inr tys \<Rightarrow> Inr (mask_rows df (map (\<lambda>c. c = CStr ''OrderTradeReportEvent'') tys)))"

definition select_window :: "dataframe \<Rightarrow> int \<Rightarrow> int \<Rightarrow> py_exception + dataframe" where
  "select_window df start_time end_time =
     (case column df ''Timestamp'' of Inl e \<Rightarrow> Inl e | Inr ts \<Rightarrow>
     (case series_cmp (\<ge>) ts start_time of Inl e \<Rightarrow> Inl e | Inr ge \<Rightarrow>
     (case series_cmp (\<le>) ts end_time of Inl e \<Rightarrow> Inl e | Inr le \<Rightarrow>
        Inr (mask_rows df (map (\<lambda>(a, b). a \<and> b) (zip ge le))))))"

datatype control = Next | Stop

text \<open>
  The body of the \<^verbatim>\<open>try\<close> block for one key. The header is written when
  \<^verbatim>\<open>f_output.tell() == 0\<close>, that is, while the file is still empty.
\<close>

definition try_body ::
  "s3_env \<Rightarrow> string \<Rightarrow> int \<Rightarrow> int \<Rightarrow> string \<Rightarrow> world \<Rightarrow> (py_exception + control) \<times> world" where
  "try_body env bucket start_time end_time key w =
     (let w1 = log_call (GetObject bucket key) w
      in case fetch_frame env bucket key of Inl e \<Rightarrow> (Inl e, w1) | Inr df \<Rightarrow>
        (case window_position df start_time end_time of
           Inl e \<Rightarrow> (Inl e, w1)
         | Inr Before \<Rightarrow> (Inr Next, w1)
         | Inr After \<Rightarrow> (Inr Stop, w1)
         | Inr Overlapping \<Rightarrow>
             (case select_trades df of Inl e \<Rightarrow> (Inl e, w1) | Inr df1 \<Rightarrow>
             (case select_window df1 start_time end_time of Inl e \<Rightarrow> (Inl e, w1) | Inr df2 \<Rightarrow>
                if \<not> df_empty df2 then (Inr Next, to_csv df2 (file_lines w1 = []) w1)
                else (Inr Next, w1)))))"

text \<open>
  The three \<^verbatim>\<open>except\<close> clauses. The one for \<^verbatim>\<open>KeyError\<close> formats a message with the
  name \<^verbatim>\<open>line\<close>, which is bound nowhere in the program: evaluating it raises
  \<^verbatim>\<open>NameError\<close> inside the handler. An exception of any other class is not caught.
\<close>

definition handle_exception ::
  "py_exception \<Rightarrow> string \<Rightarrow> world \<Rightarrow> (py_exception + control) \<times> world" where
  "handle_exception e key w =
     (case e of
        ClientError msg \<Rightarrow> (Inr Next, print (''Failed to read data from '' @ key @ '': '' @ msg) w)
      | KeyError \<Rightarrow> (Inl NameError, w)
      | ValueError \<Rightarrow> (Inr Next, print (''Failed to parse JSON from '' @ key) w)
      | _ \<Rightarrow> (Inl e, w))"

definition process_key ::
  "s3_env \<Rightarrow> string \<Rightarrow> int \<Rightarrow> int \<Rightarrow> string \<Rightarrow> world \<Rightarrow> (py_exception + control) \<times> world" where
  "process_key env bucket start_time end_time key w =
     (case try_body env bucket start_time end_time key w of
        (Inl e, w') \<Rightarrow> handle_exception e key w'
      | (Inr c, w') \<Rightarrow> (Inr c, w'))"

text \<open>The \<^verbatim>\<open>for key in keys\<close> loop.\<close>

fun retrieve_loop ::
  "s3_env \<Rightarrow> string \<Rightarrow> int \<Rightarrow> int \<Rightarrow> string list \<Rightarrow> world \<Rightarrow> (py_exception + unit) \<times> world" where
  "retrieve_loop env bucket start_time end_time [] w = (Inr (), w)"
| "retrieve_loop env bucket start_time end_time (key # keys) w =
     (case process_key env bucket start_time end_time key w of
        (Inl e, w') \<Rightarrow> (Inl e, w')
      | (Inr Stop, w') \<Rightarrow> (Inr (), w')
      | (Inr Next, w') \<Rightarrow> retrieve_loop env bucket start_time end_time keys w')"

text \<open>
  The two conversions come first and are outside every handler. Opening the file with
  mode \<^verbatim>\<open>'w'\<close> creates or empties it; the second \<^verbatim>\<open>with\<close> block closes it on every
  way out, so what was written stays.
\<close>

definition retrieve_objects ::
  "s3_env \<Rightarrow> string \<Rightarrow> string list \<Rightarrow> int \<Rightarrow> int \<Rightarrow> world \<Rightarrow> (py_exception + unit) \<times> world" where
  "retrieve_objects env bucket keys start_time end_time w =
     (case to_datetime start_time of Inl e \<Rightarrow> (Inl e, w) | Inr st \<Rightarrow>
     (case to_datetime end_time of Inl e \<Rightarrow> (Inl e, w) | Inr et \<Rightarrow>
        retrieve_loop env bucket st et keys (w\<lparr>out_file := Some []\<rparr>)))"

section \<open>\<^verbatim>\<open>main\<close>\<close>

text \<open>
  The parsed command line. An option that was not given is \<open>None\<close>. The tests of
  \<^verbatim>\<open>main\<close> are truth tests: \<^verbatim>\<open>None\<close>, the empty string and the number zero are false.
\<close>

record args =
  start_time :: "int option"
  end_time :: "int option"
  bucket :: "string option"
  prefix :: "string option"

definition truthy_str :: "string option \<Rightarrow> bool" where
  "truthy_str x = (case x of None \<Rightarrow> False | Some s \<Rightarrow> s \<noteq> [])"

definition truthy_int :: "int option \<Rightarrow> bool" where
  "truthy_int x = (case x of None \<Rightarrow> False | Some n \<Rightarrow> n \<noteq> 0)"

definition main :: "s3_env \<Rightarrow> args \<Rightarrow> world \<Rightarrow> ((py_exception + unit) \<times> world) option" where
  "main env a w =
     (if \<not> truthy_str (bucket a) then
        Some (Inr (), print ''Please provide the name of the S3 bucket'' w)
      else if \<not> truthy_str (prefix a) then
        Some (Inr (), print ''Please provide the prefix of the files'' w)
      else if truthy_int (start_time a) \<and> truthy_int (end_time a) then
        (let b = the (bucket a); p = the (prefix a);
             s = the (start_time a); e = the (end_time a)
         in if s \<ge> e then
              Some (Inr (), print ''Error: End time must be greater than start time'' w)
            else
              (case get_s3_keys env b p s w of
                 None \<Rightarrow> None
               | Some (Inl ex, w1) \<Rightarrow> Some (Inl ex, w1)
               | Some (Inr keys, w1) \<Rightarrow> Some (retrieve_objects env b keys s e w1)))
      else
        Some (Inr (), print ''Please provide both --start_time and --end_time as Unix timestamps'' w))"

section \<open>Notions used to state the properties\<close>

subsection \<open>Listings\<close>

text \<open>
  \<open>pages_reach env b p st s s'\<close>: the loop of \<^verbatim>\<open>get_s3_keys\<close>, in the state \<open>s\<close> (the
  continuation token, the keys kept so far, the world), arrives at the state \<open>s'\<close>
  after reading some pages, each with its \<^verbatim>\<open>Contents\<close>, with keys that decode, and
  with a token for the next page.
\<close>

inductive pages_reach ::
  "s3_env \<Rightarrow> string \<Rightarrow> string \<Rightarrow> int \<Rightarrow> string option \<times> string list \<times> world \<Rightarrow>
   string option \<times> string list \<times> world \<Rightarrow> bool" where
  here: "pages_reach env b p st s s"
| page: "list_objects_v2 env b p tok = Inr resp \<Longrightarrow> Contents resp = Some objs \<Longrightarrow>
         scan_page st objs keys = Inr keys' \<Longrightarrow> NextContinuationToken resp = Some t \<Longrightarrow>
         pages_reach env b p st (Some t, keys', log_call (ListObjectsV2 b p tok) w) s' \<Longrightarrow>
         pages_reach env b p st (tok, keys, w) s'"

text \<open>
  \<open>listing env b p tok pages\<close>: asked from the token \<open>tok\<close> on, the store answers with
  exactly the pages \<open>pages\<close> (the keys of each page, in the order of the response), every
  response carrying \<^verbatim>\<open>Contents\<close> and only the last one lacking a token.
\<close>

inductive listing :: "s3_env \<Rightarrow> string \<Rightarrow> string \<Rightarrow> string option \<Rightarrow> string list list \<Rightarrow> bool" where
  final: "list_objects_v2 env b p tok = Inr resp \<Longrightarrow> Contents resp = Some objs \<Longrightarrow>
          NextContinuationToken resp = None \<Longrightarrow> listing env b p tok [map Key objs]"
| more: "list_objects_v2 env b p tok = Inr resp \<Longrightarrow> Contents resp = Some objs \<Longrightarrow>
         NextContinuationToken resp = Some t \<Longrightarrow> listing env b p (Some t) pages \<Longrightarrow>
         listing env b p tok (map Key objs # pages)"

text \<open>The exception of the first key of a page that does not decode.\<close>

fun first_error :: "s3_object list \<Rightarrow> py_exception option" where
  "first_error [] = None"
| "first_error (obj # objs) =
     (case get_last_timestamp (Key obj) of
        Inl e \<Rightarrow> Some e
      | Inr t \<Rightarrow> first_error objs)"

definition decodable :: "string \<Rightarrow> bool" where
  "decodable k = (case get_last_timestamp k of Inl e \<Rightarrow> False | Inr t \<Rightarrow> True)"

text \<open>The key's embedded end time is not before the start of the window.\<close>

definition ends_in_window :: "int \<Rightarrow> string \<Rightarrow> bool" where
  "ends_in_window st k = (case get_last_timestamp k of Inl e \<Rightarrow> False | Inr t \<Rightarrow> st \<le> t)"

subsection \<open>The naming convention\<close>

text \<open>
  The key format \<^verbatim>\<open><YYYY-MM-DD>_<HH-MM-SS>_<discriminator>.<ext1>.<ext2>\<close>, with the
  numbers padded with zeros.
\<close>

definition digit_char :: "nat \<Rightarrow> char" where
  "digit_char n = char_of (48 + n mod 10)"

definition pad2 :: "int \<Rightarrow> string" where
  "pad2 n = [digit_char (nat n div 10), digit_char (nat n)]"

definition pad4 :: "int \<Rightarrow> string" where
  "pad4 n = [digit_char (nat n div 1000), digit_char (nat n div 100),
             digit_char (nat n div 10), digit_char (nat n)]"

definition key_stem :: "int \<Rightarrow> int \<Rightarrow> int \<Rightarrow> int \<Rightarrow> int \<Rightarrow> int \<Rightarrow> string \<Rightarrow> string" where
  "key_stem y mo d h mi s disc =
     pad4 y @ ''-'' @ pad2 mo @ ''-'' @ pad2 d @ ''_'' @
     pad2 h @ ''-'' @ pad2 mi @ ''-'' @ pad2 s @ ''_'' @ disc"

definition key_name ::
  "int \<Rightarrow> int \<Rightarrow> int \<Rightarrow> int \<Rightarrow> int \<Rightarrow> int \<Rightarrow> string \<Rightarrow> string \<Rightarrow> string \<Rightarrow> string" where
  "key_name y mo d h mi s disc ext1 ext2 =
     key_stem y mo d h mi s disc @ ''.'' @ ext1 @ ''.'' @ ext2"

text \<open>
  The instant that a date and a time of day denote, in seconds since
  1970-01-01T00:00:00 UTC, by counting: the days of the years that have passed, the days
  of the months that have passed in the year, and the days that have passed in the
  month, less the same count for the first day of 1970.
\<close>

definition year_length :: "int \<Rightarrow> int" where
  "year_length y = (if is_leap y then 366 else 365)"

definition day_number :: "int \<Rightarrow> int \<Rightarrow> int \<Rightarrow> int" where
  "day_number y m d =
     (\<Sum>y' \<leftarrow> [1 .. y - 1]. year_length y') +
     (\<Sum>m' \<leftarrow> [1 .. m - 1]. days_in_month y m') + (d - 1)"

definition epoch_seconds :: "int \<Rightarrow> int \<Rightarrow> int \<Rightarrow> int \<Rightarrow> int \<Rightarrow> int \<Rightarrow> int" where
  "epoch_seconds y mo d h mi s =
     (day_number y mo d - day_number 1970 1 1) * 86400 + h * 3600 + mi * 60 + s"

text \<open>
  A key that does not follow the convention: its stem does not split into exactly three
  tokens at the underscores, or the date or the time is not three integers.
\<close>

definition three_ints :: "string \<Rightarrow> bool" where
  "three_ints s =
     (case py_split (CHR ''-'') s of
        [a, b, c] \<Rightarrow> \<not> isl (py_int a) \<and> \<not> isl (py_int b) \<and> \<not> isl (py_int c)
      | _ \<Rightarrow> False)"

definition malformed_key :: "string \<Rightarrow> bool" where
  "malformed_key k =
     (case py_split (CHR ''_'') (hd (py_rsplit (CHR ''.'') 2 (basename k))) of
        [date, time, _] \<Rightarrow> \<not> three_ints date \<or> \<not> three_ints time
      | _ \<Rightarrow> True)"

subsection \<open>Tables\<close>

text \<open>
  The table that \<^verbatim>\<open>read_json\<close> builds from parsed records: the labels in the order of
  their first appearance, and \<open>CNull\<close> where a record has no such field.
\<close>

definition record_row :: "(string \<times> cell) list \<Rightarrow> string \<Rightarrow> cell" where
  "record_row kvs name = (case map_of kvs name of None \<Rightarrow> CNull | Some v \<Rightarrow> v)"

definition frame_of_records :: "(string \<times> cell) list list \<Rightarrow> dataframe" where
  "frame_of_records rs =
     \<lparr>columns = rev (remdups (rev (concat (map (map fst) rs)))), rows = map record_row rs\<rparr>"

definition is_header :: "csv_line \<Rightarrow> bool" where
  "is_header l = (case l of Header _ \<Rightarrow> True | Row _ \<Rightarrow> False)"

text \<open>An output table is empty, or a header followed by data rows only, at least one.\<close>

definition header_once :: "csv_line list \<Rightarrow> bool" where
  "header_once ls =
     (case ls of
        [] \<Rightarrow> True
      | l # rest \<Rightarrow> is_header l \<and> rest \<noteq> [] \<and> (\<forall>x \<in> set rest. \<not> is_header x))"

text \<open>A written row lies in the window and is a trade.\<close>

definition row_in_window :: "int \<Rightarrow> int \<Rightarrow> (string \<times> cell) list \<Rightarrow> bool" where
  "row_in_window st et kvs =
     ((case map_of kvs ''Timestamp'' of Some (CTime t) \<Rightarrow> st \<le> t \<and> t \<le> et | _ \<Rightarrow> False) \<and>
      map_of kvs ''Type'' = Some (CStr ''OrderTradeReportEvent''))"

definition filtered_line :: "int \<Rightarrow> int \<Rightarrow> csv_line \<Rightarrow> bool" where
  "filtered_line st et l = (case l of Header _ \<Rightarrow> True | Row kvs \<Rightarrow> row_in_window st et kvs)"

text \<open>A time-stamp cell that is a time before, or after, a given instant.\<close>

definition before_instant :: "cell \<Rightarrow> int \<Rightarrow> bool" where
  "before_instant c ts = (case c of CTime t \<Rightarrow> t < ts | _ \<Rightarrow> False)"

definition after_instant :: "cell \<Rightarrow> int \<Rightarrow> bool" where
  "after_instant c ts = (case c of CTime t \<Rightarrow> t > ts | _ \<Rightarrow> False)"

text \<open>A time-stamp cell that is a time and stands in a relation to an instant.\<close>

definition cell_rel :: "(int \<Rightarrow> int \<Rightarrow> bool) \<Rightarrow> int \<Rightarrow> cell \<Rightarrow> bool" where
  "cell_rel rel ts c = (case c of CTime t \<Rightarrow> rel t ts | _ \<Rightarrow> False)"

text \<open>The rows that the two filters of \<^verbatim>\<open>retrieve_objects\<close> keep.\<close>

definition kept_row :: "int \<Rightarrow> int \<Rightarrow> (string \<Rightarrow> cell) \<Rightarrow> bool" where
  "kept_row st et r =
     (r ''Type'' = CStr ''OrderTradeReportEvent'' \<and>
      cell_rel (\<ge>) st (r ''Timestamp'') \<and> cell_rel (\<le>) et (r ''Timestamp''))"

definition selected :: "int \<Rightarrow> int \<Rightarrow> dataframe \<Rightarrow> dataframe" where
  "selected st et df = df\<lparr>rows := filter (kept_row st et) (rows df)\<rparr>"

text \<open>What appending a table to the lines of the file gives.\<close>

definition appended :: "csv_line list \<Rightarrow> dataframe \<Rightarrow> csv_line list" where
  "appended ls df = ls @ (if ls = [] then [Header (columns df)] else []) @ csv_rows df"

text \<open>
  The table made of a sequence of batches: the header of the first batch that is not
  empty, then the data rows of all of them.
\<close>

definition table_of :: "dataframe list \<Rightarrow> csv_line list" where
  "table_of batches =
     (case filter (\<lambda>df. \<not> df_empty df) batches of
        [] \<Rightarrow> []
      | d # ds \<Rightarrow> Header (columns d) # concat (map csv_rows (d # ds)))"

text \<open>
  The batch that a key hands to the output: the trades inside the window among the
  records of its object, when the object is fetched and parsed, its time stamps place it
  across the window and the filters raise nothing; no batch otherwise.
\<close>

definition key_batch :: "s3_env \<Rightarrow> string \<Rightarrow> int \<Rightarrow> int \<Rightarrow> string \<Rightarrow> dataframe option" where
  "key_batch env b st et k =
     (case fetch_frame env b k of
        Inl e \<Rightarrow> None
      | Inr df \<Rightarrow>
          (case window_position df st et of
             Inr Overlapping \<Rightarrow>
               (case select_trades df of
                  Inl e \<Rightarrow> None
                | Inr df1 \<Rightarrow>
                    (case select_window df1 st et of
                       Inl e \<Rightarrow> None
                     | Inr df2 \<Rightarrow> Some df2))
           | _ \<Rightarrow> None))"

text \<open>
  Whether the loop goes on to the next key after this one. It does not depend on the
  world in which the key is processed.
\<close>

definition goes_on :: "s3_env \<Rightarrow> string \<Rightarrow> int \<Rightarrow> int \<Rightarrow> string \<Rightarrow> bool" where
  "goes_on env b st et k =
     (fst (process_key env b st et k \<lparr>out_file = None, stdout = [], s3_calls = []\<rparr>) = Inr Next)"

text \<open>
  The batches of a run, in order: those of the keys up to and including the first key at
  which the loop ends.
\<close>

fun batches :: "s3_env \<Rightarrow> string \<Rightarrow> int \<Rightarrow> int \<Rightarrow> string list \<Rightarrow> dataframe list" where
  "batches env b st et [] = []"
| "batches env b st et (k # ks) =
     (case key_batch env b st et k of None \<Rightarrow> [] | Some d \<Rightarrow> [d]) @
     (if goes_on env b st et k then batches env b st et ks else [])"

text \<open>A batch as the filters leave it, and the state of the file during a run.\<close>

definition batch_of :: "int \<Rightarrow> int \<Rightarrow> dataframe \<Rightarrow> bool" where
  "batch_of st et d =
     (''Timestamp'' \<in> set (columns d) \<and> ''Type'' \<in> set (columns d) \<and>
      (\<forall>r \<in> set (rows d). kept_row st et r))"

definition table_inv :: "int \<Rightarrow> int \<Rightarrow> world \<Rightarrow> bool" where
  "table_inv st et w =
     (\<exists>bs. out_file w = Some (table_of bs) \<and> (\<forall>d \<in> set bs. batch_of st et d))"

subsection \<open>Command lines\<close>

definition window_args :: "string \<Rightarrow> string \<Rightarrow> int \<Rightarrow> int \<Rightarrow> args" where
  "window_args b p s e = \<lparr>start_time = Some s, end_time = Some e, bucket = Some b, prefix = Some p\<rparr>"

section \<open>Sample archives\<close>

text \<open>
  Small archives on which the program is run below. The payload of an object is
  identified with its key, decompression leaves it as it is, and parsing looks the table
  up by that text.
\<close>

definition store :: "(string option \<Rightarrow> list_response) \<Rightarrow> (string \<Rightarrow> py_exception + dataframe) \<Rightarrow> s3_env" where
  "store pages frames =
     \<lparr>list_objects_v2 = (\<lambda>b p tok. Inr (pages tok)),
      get_object = (\<lambda>b k. Inr k),
      gzip_read = (\<lambda>body. Inr body),
      read_json = frames\<rparr>"

definition fresh_world :: world where
  "fresh_world = \<lparr>out_file = None, stdout = [], s3_calls = []\<rparr>"

text \<open>A world in which an earlier run has left a table behind.\<close>

definition used_world :: world where
  "used_world =
     \<lparr>out_file = Some [Header [''Old''], Row [(''Old'', CNum 1)]], stdout = [], s3_calls = []\<rparr>"

text \<open>
  Two objects, listed on two pages after one object that ends before the window: the
  first holds records from 00:00 to 00:05 on 2024-01-01 with one trade at 00:02, the
  second records from 00:08 to 00:12 and no trade.
\<close>

definition trade_pages :: "string option \<Rightarrow> list_response" where
  "trade_pages tok =
     (case tok of
        None \<Rightarrow>
          \<lparr>Contents = Some [\<lparr>Key = ''logs/2023-12-31_23-50-00_z.json.gz''\<rparr>,
                            \<lparr>Key = ''logs/2024-01-01_00-00-00_a.json.gz''\<rparr>],
           NextContinuationToken = Some ''page2''\<rparr>
      | Some t \<Rightarrow>
          \<lparr>Contents = Some [\<lparr>Key = ''logs/2024-01-01_00-10-00_b.json.gz''\<rparr>],
           NextContinuationToken = None\<rparr>)"

definition trade_frames :: "string \<Rightarrow> py_exception + dataframe" where
  "trade_frames text =
     (if text = ''logs/2024-01-01_00-00-00_a.json.gz'' then
        Inr (frame_of_records
          [[(''Timestamp'', CTime 1704067200000000000), (''Type'', CStr ''OrderNewRequest'')],
           [(''Timestamp'', CTime 1704067320000000000), (''Type'', CStr ''OrderTradeReportEvent'')],
           [(''Timestamp'', CTime 1704067500000000000), (''Type'', CStr ''OrderCancelRequest'')]])
      else if text = ''logs/2024-01-01_00-10-00_b.json.gz'' then
        Inr (frame_of_records
          [[(''Timestamp'', CTime 1704067680000000000), (''Type'', CStr ''OrderNewRequest'')],
           [(''Timestamp'', CTime 1704067920000000000), (''Type'', CStr ''OrderNewRequest'')]])
      else Inl ValueError)"

definition trade_archive :: s3_env where
  "trade_archive = store trade_pages trade_frames"

definition trade_keys :: "string list" where
  "trade_keys = [''logs/2024-01-01_00-00-00_a.json.gz'', ''logs/2024-01-01_00-10-00_b.json.gz'']"

text \<open>The two keys, and the first of them once more.\<close>

definition replayed_keys :: "string list" where
  "replayed_keys =
     [''logs/2024-01-01_00-00-00_a.json.gz'', ''logs/2024-01-01_00-10-00_b.json.gz'',
      ''logs/2024-01-01_00-00-00_a.json.gz'']"

text \<open>A prefix under which nothing is stored: the response has no \<^verbatim>\<open>Contents\<close>.\<close>

definition no_objects_archive :: s3_env where
  "no_objects_archive =
     store (\<lambda>tok. \<lparr>Contents = None, NextContinuationToken = None\<rparr>) (\<lambda>text. Inl ValueError)"

text \<open>A listing in which a file of another kind lies beside an archived object.\<close>

definition stray_pages :: "string option \<Rightarrow> list_response" where
  "stray_pages tok =
     \<lparr>Contents = Some [\<lparr>Key = ''logs/2024-01-01_00-00-00_a.json.gz''\<rparr>,
                       \<lparr>Key = ''logs/README.txt''\<rparr>],
      NextContinuationToken = None\<rparr>"

definition stray_archive :: s3_env where
  "stray_archive = store stray_pages trade_frames"

text \<open>
  The stray file listed after a key whose year is a number that \<^verbatim>\<open>int\<close> reads and
  \<^verbatim>\<open>datetime\<close> cannot take.
\<close>

definition overflow_pages :: "string option \<Rightarrow> list_response" where
  "overflow_pages tok =
     \<lparr>Contents = Some [\<lparr>Key = ''logs/99999999999-01-01_00-00-00_x.json.gz''\<rparr>,
                       \<lparr>Key = ''logs/README.txt''\<rparr>],
      NextContinuationToken = None\<rparr>"

definition overflow_archive :: s3_env where
  "overflow_archive = store overflow_pages trade_frames"

text \<open>The same, with the stray file on the second page and a time of two numbers only.\<close>

definition late_stray_pages :: "string option \<Rightarrow> list_response" where
  "late_stray_pages tok =
     (case tok of
        None \<Rightarrow>
          \<lparr>Contents = Some [\<lparr>Key = ''logs/2024-01-01_00-00-00_a.json.gz''\<rparr>],
           NextContinuationToken = Some ''page2''\<rparr>
      | Some t \<Rightarrow>
          \<lparr>Contents = Some [\<lparr>Key = ''logs/2024-01-01_00-10_b.json.gz''\<rparr>],
           NextContinuationToken = None\<rparr>)"

definition late_stray_archive :: s3_env where
  "late_stray_archive = store late_stray_pages trade_frames"

text \<open>
  Objects that break the assumptions: one whose records are not in the order of their
  time stamps (100 s, then 5 s), one whose records have no \<^verbatim>\<open>Timestamp\<close>, one that
  begins after the window, and a well-formed one with a trade at 20 s.
\<close>

definition unsorted_frame :: dataframe where
  "unsorted_frame =
     frame_of_records
       [[(''Timestamp'', CTime 100000000000), (''Type'', CStr ''OrderNewRequest'')],
        [(''Timestamp'', CTime 5000000000), (''Type'', CStr ''OrderNewRequest'')]]"

definition untimed_frame :: dataframe where
  "untimed_frame = frame_of_records [[(''Type'', CStr ''OrderTradeReportEvent'')]]"

text \<open>
  An object that begins after a window ending at 50 s, and yet holds a trade at 20 s
  between its first record at 60 s and its last at 55 s.
\<close>

definition late_frame :: dataframe where
  "late_frame =
     frame_of_records
       [[(''Timestamp'', CTime 60000000000), (''Type'', CStr ''OrderNewRequest'')],
        [(''Timestamp'', CTime 20000000000), (''Type'', CStr ''OrderTradeReportEvent'')],
        [(''Timestamp'', CTime 55000000000), (''Type'', CStr ''OrderNewRequest'')]]"

definition trade_frame :: dataframe where
  "trade_frame =
     frame_of_records
       [[(''Timestamp'', CTime 20000000000), (''Type'', CStr ''OrderTradeReportEvent'')]]"

definition odd_frames :: "string \<Rightarrow> py_exception + dataframe" where
  "odd_frames text =
     (if text = ''unsorted'' then Inr unsorted_frame
      else if text = ''untimed'' then Inr untimed_frame
      else if text = ''late'' then Inr late_frame
      else if text = ''trade'' then Inr trade_frame
      else Inl ValueError)"

definition odd_archive :: s3_env where
  "odd_archive = store (\<lambda>tok. \<lparr>Contents = None, NextContinuationToken = None\<rparr>) odd_frames"

section \<open>Properties\<close>

subsection \<open>Listing\<close>

lemma pages_reach_list_pages:
  "pages_reach env b p st s s' \<Longrightarrow>
   list_pages env b p st (fst s) (fst (snd s)) (snd (snd s)) =
   list_pages env b p st (fst s') (fst (snd s')) (snd (snd s'))"
proof (induction rule: pages_reach.induct)
  case (here env b p st s)
  show ?case by simp
next
  case (page env b p tok resp objs st keys keys' t w s')
  have "list_pages env b p st tok keys w =
        list_pages env b p st (Some t) keys' (log_call (ListObjectsV2 b p tok) w)"
    by (subst list_pages.simps) (simp add: page.hyps)
  with page.IH show ?case by simp
qed

lemma get_s3_keys_reach:
  "pages_reach env b p st (None, [], w) (tok, keys, w') \<Longrightarrow>
   get_s3_keys env b p st w = list_pages env b p st tok keys w'"
  using pages_reach_list_pages [of env b p st "(None, [], w)" "(tok, keys, w')"]
  by (simp add: get_s3_keys_def)

lemma list_pages_no_contents:
  assumes "list_objects_v2 env b p tok = Inr resp" and "Contents resp = None"
  shows "list_pages env b p st tok keys w = Some (Inl KeyError, log_call (ListObjectsV2 b p tok) w)"
  by (subst list_pages.simps) (simp add: assms)

lemma main_listing_failure:
  assumes "get_s3_keys env b p s w = Some (Inl ex, w1)"
      and "b \<noteq> []" and "p \<noteq> []" and "s \<noteq> 0" and "e \<noteq> 0" and "s < e"
  shows "main env (window_args b p s e) w = Some (Inl ex, w1)"
  using assms by (simp add: main_def window_args_def truthy_str_def truthy_int_def)

text \<open>
  Claim C10. \<^verbatim>\<open>get_s3_keys\<close> takes every page to carry \<^verbatim>\<open>Contents\<close>. When the loop
  reaches a page whose response has no such entry, \<^verbatim>\<open>get_s3_keys\<close> raises
  \<^verbatim>\<open>KeyError\<close>: the keys kept so far are not returned, and \<^verbatim>\<open>main\<close>, which has no
  handler, ends with the same exception.
\<close>

theorem get_s3_keys_page_without_contents:
  assumes "pages_reach env b p s (None, [], w) (tok, keys, w')"
      and "list_objects_v2 env b p tok = Inr resp"
      and "Contents resp = None"
  shows "get_s3_keys env b p s w = Some (Inl KeyError, log_call (ListObjectsV2 b p tok) w') \<and>
         (b \<noteq> [] \<and> p \<noteq> [] \<and> s \<noteq> 0 \<and> e \<noteq> 0 \<and> s < e \<longrightarrow>
          main env (window_args b p s e) w =
            Some (Inl KeyError, log_call (ListObjectsV2 b p tok) w'))"
proof -
  have k: "get_s3_keys env b p s w = Some (Inl KeyError, log_call (ListObjectsV2 b p tok) w')"
    using get_s3_keys_reach [OF assms(1)] list_pages_no_contents [OF assms(2,3)] by simp
  then show ?thesis
    by (auto intro: main_listing_failure)
qed

text \<open>
  A prefix with no object under it: the first response has no \<^verbatim>\<open>Contents\<close>.
\<close>

theorem get_s3_keys_page_without_contents_witness:
  "get_s3_keys no_objects_archive ''bkt'' ''logs/'' 1704067200 used_world =
     Some (Inl KeyError, log_call (ListObjectsV2 ''bkt'' ''logs/'' None) used_world) \<and>
   main no_objects_archive (window_args ''bkt'' ''logs/'' 1704067200 1704067740) used_world =
     Some (Inl KeyError, log_call (ListObjectsV2 ''bkt'' ''logs/'' None) used_world)"
proof -
  have r: "pages_reach no_objects_archive ''bkt'' ''logs/'' 1704067200
             (None, [], used_world) (None, [], used_world)"
    by (rule pages_reach.here)
  have l: "list_objects_v2 no_objects_archive ''bkt'' ''logs/'' None =
             Inr \<lparr>Contents = None, NextContinuationToken = None\<rparr>"
    by (simp add: no_objects_archive_def store_def)
  have c: "Contents \<lparr>Contents = None, NextContinuationToken = None\<rparr> = None"
    by simp
  show ?thesis
    using get_s3_keys_page_without_contents [OF r l c, of 1704067740] by simp
qed

subsection \<open>Errors of the key clock\<close>

lemma parse_digits_error: "parse_digits s = Inl e \<Longrightarrow> e = ValueError"
  by (simp add: parse_digits_def Let_def split: if_splits)

lemma py_int_error: "py_int s = Inl e \<Longrightarrow> e = ValueError"
  by (auto simp: py_int_def split: list.splits if_splits sum.splits dest: parse_digits_error)

lemma int_triple_error: "int_triple s = Inl e \<Longrightarrow> e = ValueError"
  by (auto simp: int_triple_def split: list.splits sum.splits dest: py_int_error)

lemma get_last_timestamp_error:
  "get_last_timestamp k = Inl e \<Longrightarrow> e = ValueError \<or> e = OverflowError"
  by (auto simp: get_last_timestamp_def Let_def datetime_timestamp_def
           split: list.splits sum.splits if_splits prod.splits dest: int_triple_error)

lemma not_three_ints: "\<not> three_ints s \<Longrightarrow> int_triple s = Inl ValueError"
  by (auto simp: three_ints_def int_triple_def split: list.splits sum.splits dest: py_int_error)

lemma malformed_key_error: "malformed_key k \<Longrightarrow> get_last_timestamp k = Inl ValueError"
  by (auto simp: malformed_key_def get_last_timestamp_def Let_def
           split: list.splits sum.splits prod.splits dest: not_three_ints int_triple_error)

lemma first_error_member:
  "k \<in> Key ` set objs \<Longrightarrow> get_last_timestamp k = Inl e0 \<Longrightarrow> \<exists>e. first_error objs = Some e"
proof (induction objs)
  case Nil
  then show ?case by simp
next
  case (Cons obj objs)
  then show ?case
    by (cases "get_last_timestamp (Key obj)") auto
qed

lemma first_error_class:
  "first_error objs = Some e \<Longrightarrow> e = ValueError \<or> e = OverflowError"
proof (induction objs)
  case Nil
  then show ?case by simp
next
  case (Cons obj objs)
  then show ?case
    by (cases "get_last_timestamp (Key obj)") (auto dest: get_last_timestamp_error)
qed

lemma scan_page_first_error:
  "first_error objs = Some e \<Longrightarrow> scan_page st objs keys = Inl e"
proof (induction objs arbitrary: keys)
  case Nil
  then show ?case by simp
next
  case (Cons obj objs)
  then show ?case
    by (cases "get_last_timestamp (Key obj)") auto
qed

lemma list_pages_scan_error:
  assumes "list_objects_v2 env b p tok = Inr resp" and "Contents resp = Some objs"
      and "scan_page st objs keys = Inl e"
  shows "list_pages env b p st tok keys w = Some (Inl e, log_call (ListObjectsV2 b p tok) w)"
  by (subst list_pages.simps) (simp add: assms)

text \<open>
  Claim C2, as the program has it. For a listed key that does not follow the naming
  convention, \<^verbatim>\<open>get_last_timestamp\<close> raises \<^verbatim>\<open>ValueError\<close>. \<^verbatim>\<open>get_s3_keys\<close> has no handler
  around the call, so on the first page that holds such a key the listing ends, right
  after the request for that page, with the exception of the first key of the page that
  does not decode, and returns no keys at all. That exception is \<^verbatim>\<open>ValueError\<close>, or
  \<^verbatim>\<open>OverflowError\<close> when an earlier key of the page holds a number too large for
  \<^verbatim>\<open>datetime\<close>.
\<close>

theorem malformed_key_aborts_listing:
  assumes "malformed_key k"
      and "pages_reach env b p s (None, [], w) (tok, keys, w')"
      and "list_objects_v2 env b p tok = Inr resp"
      and "Contents resp = Some objs"
      and "k \<in> Key ` set objs"
  shows "get_last_timestamp k = Inl ValueError \<and>
         (\<exists>e. first_error objs = Some e \<and> (e = ValueError \<or> e = OverflowError) \<and>
              get_s3_keys env b p s w = Some (Inl e, log_call (ListObjectsV2 b p tok) w'))"
proof -
  have v: "get_last_timestamp k = Inl ValueError"
    using assms(1) by (rule malformed_key_error)
  from first_error_member [OF assms(5) v]
  obtain e where e: "first_error objs = Some e" ..
  have "scan_page s objs keys = Inl e"
    using e by (rule scan_page_first_error)
  from list_pages_scan_error [OF assms(3,4) this] get_s3_keys_reach [OF assms(2)]
  have "get_s3_keys env b p s w = Some (Inl e, log_call (ListObjectsV2 b p tok) w')"
    by simp
  with v e first_error_class [OF e] show ?thesis by blast
qed

lemma key_a: "get_last_timestamp ''logs/2024-01-01_00-00-00_a.json.gz'' = Inr 1704067200"
  by code_simp

lemma key_b: "get_last_timestamp ''logs/2024-01-01_00-10-00_b.json.gz'' = Inr 1704067800"
  by code_simp

lemma key_z: "get_last_timestamp ''logs/2023-12-31_23-50-00_z.json.gz'' = Inr 1704066600"
  by code_simp

text \<open>
  A stray key on the second page: the listing fails after two calls, with the
  \<^verbatim>\<open>ValueError\<close> of that key. A stray key after a key with a year of eleven digits: the
  listing fails with the \<^verbatim>\<open>OverflowError\<close> of the key before it.
\<close>

theorem malformed_key_aborts_listing_witness:
  "get_last_timestamp ''logs/2024-01-01_00-10_b.json.gz'' = Inl ValueError \<and>
   get_s3_keys late_stray_archive ''bkt'' ''logs/'' 1704067200 fresh_world =
     Some (Inl ValueError,
           log_call (ListObjectsV2 ''bkt'' ''logs/'' (Some ''page2''))
             (log_call (ListObjectsV2 ''bkt'' ''logs/'' None) fresh_world)) \<and>
   get_last_timestamp ''logs/README.txt'' = Inl ValueError \<and>
   get_s3_keys overflow_archive ''bkt'' ''logs/'' 1704067200 fresh_world =
     Some (Inl OverflowError, log_call (ListObjectsV2 ''bkt'' ''logs/'' None) fresh_world)"
proof -
  have m: "malformed_key ''logs/2024-01-01_00-10_b.json.gz''"
    by code_simp
  have r: "pages_reach late_stray_archive ''bkt'' ''logs/'' 1704067200
             (None, [], fresh_world)
             (Some ''page2'', [''logs/2024-01-01_00-00-00_a.json.gz''],
              log_call (ListObjectsV2 ''bkt'' ''logs/'' None) fresh_world)"
    by (rule pages_reach.page [where resp = "late_stray_pages None"
          and objs = "[\<lparr>Key = ''logs/2024-01-01_00-00-00_a.json.gz''\<rparr>]" and t = "''page2''",
          OF _ _ _ _ pages_reach.here])
       (simp_all add: late_stray_archive_def store_def late_stray_pages_def key_a)
  have l: "list_objects_v2 late_stray_archive ''bkt'' ''logs/'' (Some ''page2'') =
             Inr (late_stray_pages (Some ''page2''))"
    by (simp add: late_stray_archive_def store_def)
  have c: "Contents (late_stray_pages (Some ''page2'')) =
             Some [\<lparr>Key = ''logs/2024-01-01_00-10_b.json.gz''\<rparr>]"
    by (simp add: late_stray_pages_def)
  have i: "''logs/2024-01-01_00-10_b.json.gz'' \<in> Key ` set [\<lparr>Key = ''logs/2024-01-01_00-10_b.json.gz''\<rparr>]"
    by simp
  have f: "first_error [\<lparr>Key = ''logs/2024-01-01_00-10_b.json.gz''\<rparr>] = Some ValueError"
    by code_simp
  have m2: "malformed_key ''logs/README.txt''"
    by code_simp
  have r2: "pages_reach overflow_archive ''bkt'' ''logs/'' 1704067200
              (None, [], fresh_world) (None, [], fresh_world)"
    by (rule pages_reach.here)
  have l2: "list_objects_v2 overflow_archive ''bkt'' ''logs/'' None = Inr (overflow_pages None)"
    by (simp add: overflow_archive_def store_def)
  have c2: "Contents (overflow_pages None) =
              Some [\<lparr>Key = ''logs/99999999999-01-01_00-00-00_x.json.gz''\<rparr>,
                    \<lparr>Key = ''logs/README.txt''\<rparr>]"
    by (simp add: overflow_pages_def)
  have i2: "''logs/README.txt'' \<in> Key ` set [\<lparr>Key = ''logs/99999999999-01-01_00-00-00_x.json.gz''\<rparr>,
                                               \<lparr>Key = ''logs/README.txt''\<rparr>]"
    by simp
  have f2: "first_error [\<lparr>Key = ''logs/99999999999-01-01_00-00-00_x.json.gz''\<rparr>,
                         \<lparr>Key = ''logs/README.txt''\<rparr>] = Some OverflowError"
    by code_simp
  show ?thesis
    using malformed_key_aborts_listing [OF m r l c i, unfolded f]
          malformed_key_aborts_listing [OF m2 r2 l2 c2 i2, unfolded f2]
    by simp
qed

text \<open>
  Claim C2 as it is worded does not hold: with \<^verbatim>\<open>logs/README.txt\<close> listed next to a
  well-formed key, the result is the exception and not a list of keys that retains it.
\<close>

theorem malformed_key_retained_counterexample:
  "malformed_key ''logs/README.txt'' \<and>
   get_s3_keys stray_archive ''bkt'' ''logs/'' 1704067200 fresh_world =
     Some (Inl ValueError, log_call (ListObjectsV2 ''bkt'' ''logs/'' None) fresh_world)"
proof -
  have m: "malformed_key ''logs/README.txt''"
    by code_simp
  have e: "get_last_timestamp ''logs/README.txt'' = Inl ValueError"
    by code_simp
  have "list_pages stray_archive ''bkt'' ''logs/'' 1704067200 None [] fresh_world =
          Some (Inl ValueError, log_call (ListObjectsV2 ''bkt'' ''logs/'' None) fresh_world)"
    by (subst list_pages.simps) (simp add: stray_archive_def store_def stray_pages_def key_a e)
  with m show ?thesis by (simp add: get_s3_keys_def)
qed

subsection \<open>Pruning\<close>

lemma scan_page_filter:
  "\<forall>k \<in> Key ` set objs. decodable k \<Longrightarrow>
   scan_page st objs keys = Inr (keys @ filter (ends_in_window st) (map Key objs))"
  by (induction objs arbitrary: keys) (auto simp: decodable_def ends_in_window_def split: sum.splits)

lemma listing_list_pages:
  "listing env b p tok pages \<Longrightarrow> \<forall>k \<in> set (concat pages). decodable k \<Longrightarrow>
   map_option fst (list_pages env b p st tok keys w) =
     Some (Inr (keys @ filter (ends_in_window st) (concat pages)))"
proof (induction arbitrary: keys w rule: listing.induct)
  case (final env b p tok resp objs)
  then have "scan_page st objs keys = Inr (keys @ filter (ends_in_window st) (map Key objs))"
    by (intro scan_page_filter) auto
  with final show ?case
    by (subst list_pages.simps) simp
next
  case (more env b p tok resp objs t pages)
  then have sp: "scan_page st objs keys = Inr (keys @ filter (ends_in_window st) (map Key objs))"
    by (intro scan_page_filter) auto
  have dec: "\<forall>k \<in> set (concat pages). decodable k" using more.prems by simp
  have step: "list_pages env b p st tok keys w =
        list_pages env b p st (Some t) (keys @ filter (ends_in_window st) (map Key objs))
          (log_call (ListObjectsV2 b p tok) w)"
    by (subst list_pages.simps) (simp add: more.hyps sp)
  show ?case
    unfolding step using more.IH [OF dec, of "keys @ filter (ends_in_window st) (map Key objs)"]
    by simp
qed

text \<open>
  Claim C6. When the store answers with pages of keys that all decode, \<^verbatim>\<open>get_s3_keys\<close>
  returns exactly the listed keys whose embedded end time is not before the start of the
  window, in the order of the listing, duplicates included.
\<close>

theorem get_s3_keys_pruning:
  assumes "listing env b p None pages"
      and "\<forall>k \<in> set (concat pages). decodable k"
  shows "map_option fst (get_s3_keys env b p s w) =
           Some (Inr (filter (ends_in_window s) (concat pages)))"
  using listing_list_pages [OF assms, of s "[]" w] by (simp add: get_s3_keys_def)

text \<open>
  The sample archive: of three keys on two pages, the one that ends before the window is
  dropped and the other two stay in order.
\<close>

theorem get_s3_keys_pruning_witness:
  "map_option fst (get_s3_keys trade_archive ''bkt'' ''logs/'' 1704067200 fresh_world) =
     Some (Inr [''logs/2024-01-01_00-00-00_a.json.gz'', ''logs/2024-01-01_00-10-00_b.json.gz''])"
proof -
  have l2: "listing trade_archive ''bkt'' ''logs/'' (Some ''page2'')
              [map Key [\<lparr>Key = ''logs/2024-01-01_00-10-00_b.json.gz''\<rparr>]]"
    by (rule listing.final [where resp = "trade_pages (Some ''page2'')"])
       (simp_all add: trade_archive_def store_def trade_pages_def)
  have l: "listing trade_archive ''bkt'' ''logs/'' None
             (map Key [\<lparr>Key = ''logs/2023-12-31_23-50-00_z.json.gz''\<rparr>,
                       \<lparr>Key = ''logs/2024-01-01_00-00-00_a.json.gz''\<rparr>] #
              [map Key [\<lparr>Key = ''logs/2024-01-01_00-10-00_b.json.gz''\<rparr>]])"
    by (rule listing.more [where resp = "trade_pages None" and t = "''page2''", OF _ _ _ l2])
       (simp_all add: trade_archive_def store_def trade_pages_def)
  have d: "\<forall>k \<in> set (concat
             (map Key [\<lparr>Key = ''logs/2023-12-31_23-50-00_z.json.gz''\<rparr>,
                       \<lparr>Key = ''logs/2024-01-01_00-00-00_a.json.gz''\<rparr>] #
              [map Key [\<lparr>Key = ''logs/2024-01-01_00-10-00_b.json.gz''\<rparr>]])). decodable k"
    by (simp add: decodable_def key_a key_b key_z)
  show ?thesis
    using get_s3_keys_pruning [OF l d, of 1704067200 fresh_world]
    by (simp add: ends_in_window_def key_a key_b key_z)
qed

subsection \<open>The command line\<close>

lemma main_invalid_window:
  assumes "e \<le> s"
  shows "\<exists>w'. main env (window_args b p s e) w = Some (Inr (), w') \<and>
              s3_calls w' = s3_calls w \<and> out_file w' = out_file w"
  using assms by (simp add: main_def window_args_def print_def Let_def)

lemma main_invalid_window_message:
  assumes "e \<le> s" and "b \<noteq> []" and "p \<noteq> []" and "s \<noteq> 0" and "e \<noteq> 0"
  shows "main env (window_args b p s e) w =
           Some (Inr (), print ''Error: End time must be greater than start time'' w)"
  using assms by (simp add: main_def window_args_def truthy_str_def truthy_int_def)

text \<open>
  Claim C8 at the command line \<^verbatim>\<open>--start_time 1 --end_time 0\<close>. The window is not
  valid, and nothing is listed, fetched or written, but the truth test on the two
  numbers takes the zero for a missing option: the message is the one for missing
  options and not the one for an end time that is not after the start time.
\<close>

theorem main_zero_end_time:
  "main odd_archive (window_args ''bkt'' ''logs/'' 1 0) used_world =
     Some (Inr (),
           print ''Please provide both --start_time and --end_time as Unix timestamps'' used_world)"
  by (simp add: main_def window_args_def truthy_str_def truthy_int_def)

subsection \<open>One key\<close>

text \<open>
  Claim C1 at an object whose records have no \<^verbatim>\<open>Timestamp\<close>, between two objects that
  each hold one trade. The \<^verbatim>\<open>KeyError\<close> reaches its handler, the handler raises
  \<^verbatim>\<open>NameError\<close>, and the run ends there: the row of the first object stays in the file,
  the third object is never fetched.
\<close>

theorem retrieve_objects_untimed_aborts:
  "retrieve_objects odd_archive ''bkt'' [''trade'', ''untimed'', ''trade''] 10 50 fresh_world =
     (Inl NameError,
      \<lparr>out_file = Some [Header [''Timestamp'', ''Type''],
                        Row [(''Timestamp'', CTime 20000000000),
                             (''Type'', CStr ''OrderTradeReportEvent'')]],
       stdout = [],
       s3_calls = [GetObject ''bkt'' ''trade'', GetObject ''bkt'' ''untimed'']\<rparr>)"
  by code_simp

lemma process_key_client_error:
  assumes "get_object env b k = Inl (ClientError msg)"
  shows "process_key env b st et k w =
           (Inr Next, print (''Failed to read data from '' @ k @ '': '' @ msg)
                        (log_call (GetObject b k) w))"
  using assms by (simp add: process_key_def try_body_def fetch_frame_def handle_exception_def)

lemma process_key_value_error:
  assumes "fetch_frame env b k = Inl ValueError"
  shows "process_key env b st et k w =
           (Inr Next, print (''Failed to parse JSON from '' @ k) (log_call (GetObject b k) w))"
  using assms by (simp add: process_key_def try_body_def handle_exception_def)

lemma process_key_key_error:
  assumes "fetch_frame env b k = Inr df" and "''Timestamp'' \<notin> set (columns df)"
  shows "process_key env b st et k w = (Inl NameError, log_call (GetObject b k) w)"
  using assms
  by (simp add: process_key_def try_body_def handle_exception_def window_position_def column_def)

subsection \<open>The filters\<close>

lemma mask_rows_map: "mask_rows df (map f (rows df)) = df\<lparr>rows := filter f (rows df)\<rparr>"
proof -
  have "map fst (filter snd (zip xs (map f xs))) = filter f xs" for xs :: "(string \<Rightarrow> cell) list"
    by (induction xs) auto
  then show ?thesis by (simp add: mask_rows_def)
qed

lemma select_trades_rows:
  assumes "select_trades df = Inr df1"
  shows "df1 = df\<lparr>rows := filter (\<lambda>r. r ''Type'' = CStr ''OrderTradeReportEvent'') (rows df)\<rparr>"
proof -
  have "map (\<lambda>c. c = CStr ''OrderTradeReportEvent'') (map (\<lambda>r. r ''Type'') (rows df)) =
        map (\<lambda>r. r ''Type'' = CStr ''OrderTradeReportEvent'') (rows df)"
    by simp
  with assms mask_rows_map [of df "\<lambda>r. r ''Type'' = CStr ''OrderTradeReportEvent''"]
  show ?thesis
    by (simp add: select_trades_def column_def comp_def split: if_splits)
qed

lemma series_cmp_map:
  "series_cmp rel cs ts = Inr bs \<Longrightarrow> bs = map (cell_rel rel ts) cs"
proof (induction cs arbitrary: bs)
  case Nil
  then show ?case by simp
next
  case (Cons c cs)
  then show ?case
    by (cases c) (auto simp: cell_rel_def split: sum.splits)
qed

lemma zip_masks: "map (\<lambda>(a, b). a \<and> b) (zip (map f xs) (map g xs)) = map (\<lambda>x. f x \<and> g x) xs"
  by (induction xs) simp_all

lemma select_window_rows:
  assumes "select_window df st et = Inr df2"
  shows "df2 = df\<lparr>rows := filter (\<lambda>r. cell_rel (\<ge>) st (r ''Timestamp'') \<and>
                                      cell_rel (\<le>) et (r ''Timestamp'')) (rows df)\<rparr>"
proof -
  from assms obtain ge le where
    ge: "series_cmp (\<ge>) (map (\<lambda>r. r ''Timestamp'') (rows df)) st = Inr ge" and
    le: "series_cmp (\<le>) (map (\<lambda>r. r ''Timestamp'') (rows df)) et = Inr le" and
    df2: "df2 = mask_rows df (map (\<lambda>(a, b). a \<and> b) (zip ge le))"
    by (auto simp: select_window_def column_def split: if_splits sum.splits)
  have "map (\<lambda>(a, b). a \<and> b) (zip ge le) =
        map (\<lambda>r. cell_rel (\<ge>) st (r ''Timestamp'') \<and> cell_rel (\<le>) et (r ''Timestamp'')) (rows df)"
    unfolding series_cmp_map [OF ge] series_cmp_map [OF le]
    by (simp add: zip_masks comp_def)
  then show ?thesis
    using df2 mask_rows_map by simp
qed


subsection \<open>What one key does to the file\<close>

lemma select_both:
  assumes "select_trades df = Inr df1" and "select_window df1 st et = Inr df2"
  shows "df2 = selected st et df"
  using select_trades_rows [OF assms(1)] select_window_rows [OF assms(2)]
  by (simp add: selected_def kept_row_def [abs_def])

lemma window_position_column:
  "window_position df st et = Inr pos \<Longrightarrow> ''Timestamp'' \<in> set (columns df)"
  by (simp add: window_position_def column_def split: if_splits)

lemma select_trades_column:
  "select_trades df = Inr df1 \<Longrightarrow> ''Type'' \<in> set (columns df)"
  by (simp add: select_trades_def column_def split: if_splits)

lemma file_lines_log_call [simp]: "file_lines (log_call c w) = file_lines w"
  by (simp add: file_lines_def log_call_def)

lemma out_file_log_call [simp]: "out_file (log_call c w) = out_file w"
  by (simp add: log_call_def)

lemma out_file_print [simp]: "out_file (print m w) = out_file w"
  by (simp add: print_def)

lemma out_file_to_csv [simp]:
  "out_file (to_csv df h w) =
     Some (file_lines w @ (if h then [Header (columns df)] else []) @ csv_rows df)"
  by (simp add: to_csv_def)

lemma try_body_file:
  "out_file (snd (try_body env b st et k w)) = out_file w \<or>
   (\<exists>df. fetch_frame env b k = Inr df \<and> ''Timestamp'' \<in> set (columns df) \<and>
         ''Type'' \<in> set (columns df) \<and> rows (selected st et df) \<noteq> [] \<and>
         out_file (snd (try_body env b st et k w)) =
           Some (appended (file_lines w) (selected st et df)))"
proof (cases "fetch_frame env b k")
  case (Inl e)
  then show ?thesis by (simp add: try_body_def)
next
  case df: (Inr df)
  show ?thesis
  proof (cases "window_position df st et")
    case (Inl e)
    with df show ?thesis by (simp add: try_body_def)
  next
    case pos: (Inr pos)
    note col = window_position_column [OF pos]
    show ?thesis
    proof (cases pos)
      case Before
      with df pos show ?thesis by (simp add: try_body_def)
    next
      case After
      with df pos show ?thesis by (simp add: try_body_def)
    next
      case Overlapping
      show ?thesis
      proof (cases "select_trades df")
        case (Inl e)
        with df pos Overlapping show ?thesis by (simp add: try_body_def)
      next
        case df1: (Inr df1)
        show ?thesis
        proof (cases "select_window df1 st et")
          case (Inl e)
          with df pos Overlapping df1 show ?thesis by (simp add: try_body_def)
        next
          case df2: (Inr df2)
          have eq: "df2 = selected st et df" using select_both [OF df1 df2] .
          show ?thesis
          proof (cases "df_empty df2")
            case True
            with df pos Overlapping df1 df2 show ?thesis by (simp add: try_body_def)
          next
            case False
            then have "rows (selected st et df) \<noteq> []"
              using eq by (simp add: df_empty_def)
            with df pos Overlapping df1 df2 False col select_trades_column [OF df1] eq
            show ?thesis by (simp add: try_body_def appended_def)
          qed
        qed
      qed
    qed
  qed
qed

lemma out_file_handle_exception [simp]:
  "out_file (snd (handle_exception e k w)) = out_file w"
  by (cases e) (simp_all add: handle_exception_def)

lemma process_key_file:
  "out_file (snd (process_key env b st et k w)) = out_file w \<or>
   (\<exists>df. fetch_frame env b k = Inr df \<and> ''Timestamp'' \<in> set (columns df) \<and>
         ''Type'' \<in> set (columns df) \<and> rows (selected st et df) \<noteq> [] \<and>
         out_file (snd (process_key env b st et k w)) =
           Some (appended (file_lines w) (selected st et df)))"
proof -
  have "out_file (snd (process_key env b st et k w)) = out_file (snd (try_body env b st et k w))"
    by (simp add: process_key_def split: prod.splits sum.splits)
  with try_body_file [of env b st et k w] show ?thesis by simp
qed


subsection \<open>The table as a sequence of batches\<close>

lemma csv_rows_empty [simp]: "csv_rows df = [] \<longleftrightarrow> rows df = []"
  by (simp add: csv_rows_def)

lemma csv_rows_not_header: "l \<in> set (csv_rows df) \<Longrightarrow> \<not> is_header l"
  by (auto simp: csv_rows_def is_header_def)

lemma appended_table_of:
  assumes "\<not> df_empty df"
  shows "appended (table_of bs) df = table_of (bs @ [df])"
  using assms by (simp add: appended_def table_of_def split: list.splits)

lemma header_once_table_of: "header_once (table_of bs)"
proof (cases "filter (\<lambda>df. \<not> df_empty df) bs")
  case Nil
  then show ?thesis by (simp add: table_of_def header_once_def)
next
  case (Cons d ds)
  then have "d \<in> set (filter (\<lambda>df. \<not> df_empty df) bs)" by simp
  then have "rows d \<noteq> []" by (simp add: df_empty_def)
  with Cons show ?thesis
    by (auto simp: table_of_def header_once_def is_header_def dest: csv_rows_not_header)
qed

lemma map_of_labelled:
  "map_of (map (\<lambda>c. (c, f c)) cs) k = (if k \<in> set cs then Some (f k) else None)"
  by (induction cs) auto

lemma kept_row_in_window:
  assumes "kept_row st et r" and "''Timestamp'' \<in> set cs" and "''Type'' \<in> set cs"
  shows "row_in_window st et (map (\<lambda>c. (c, r c)) cs)"
  using assms
  by (auto simp: kept_row_def row_in_window_def cell_rel_def map_of_labelled split: cell.splits)

lemma batch_of_selected:
  "''Timestamp'' \<in> set (columns df) \<Longrightarrow> ''Type'' \<in> set (columns df) \<Longrightarrow>
   batch_of st et (selected st et df)"
  by (simp add: batch_of_def selected_def)

lemma table_of_rows:
  assumes "Row kvs \<in> set (table_of bs)" and "\<forall>d \<in> set bs. batch_of st et d"
  shows "row_in_window st et kvs"
proof -
  let ?nb = "filter (\<lambda>df. \<not> df_empty df) bs"
  from assms(1) have "Row kvs \<in> set (concat (map csv_rows ?nb))"
    by (cases ?nb) (auto simp: table_of_def)
  then obtain d where "d \<in> set ?nb" and r: "Row kvs \<in> set (csv_rows d)"
    by auto
  then have d: "d \<in> set bs" by simp
  from r obtain r' where "r' \<in> set (rows d)" and "kvs = map (\<lambda>c. (c, r' c)) (columns d)"
    by (auto simp: csv_rows_def)
  with assms(2) d show ?thesis
    by (auto simp: batch_of_def intro: kept_row_in_window)
qed

lemma table_inv_truncated: "table_inv st et (w\<lparr>out_file := Some []\<rparr>)"
proof -
  have "table_of [] = []" by (simp add: table_of_def)
  then show ?thesis
    unfolding table_inv_def by (intro exI [of _ "[]"]) simp
qed

lemma process_key_table_inv:
  assumes "table_inv st et w"
  shows "table_inv st et (snd (process_key env b st et k w))"
proof -
  from assms obtain bs where
    bs: "out_file w = Some (table_of bs)" and all: "\<forall>d \<in> set bs. batch_of st et d"
    by (auto simp: table_inv_def)
  from process_key_file [of env b st et k w] show ?thesis
  proof
    assume "out_file (snd (process_key env b st et k w)) = out_file w"
    with bs all show ?thesis by (auto simp: table_inv_def)
  next
    assume "\<exists>df. fetch_frame env b k = Inr df \<and> ''Timestamp'' \<in> set (columns df) \<and>
         ''Type'' \<in> set (columns df) \<and> rows (selected st et df) \<noteq> [] \<and>
         out_file (snd (process_key env b st et k w)) =
           Some (appended (file_lines w) (selected st et df))"
    then obtain df where
      ts: "''Timestamp'' \<in> set (columns df)" and ty: "''Type'' \<in> set (columns df)" and
      ne: "rows (selected st et df) \<noteq> []" and
      out: "out_file (snd (process_key env b st et k w)) =
              Some (appended (file_lines w) (selected st et df))"
      by blast
    have "\<not> df_empty (selected st et df)"
      using ne ts by (auto simp: df_empty_def selected_def)
    then have "appended (table_of bs) (selected st et df) = table_of (bs @ [selected st et df])"
      by (rule appended_table_of)
    moreover have "file_lines w = table_of bs"
      using bs by (simp add: file_lines_def)
    ultimately have "out_file (snd (process_key env b st et k w)) =
                       Some (table_of (bs @ [selected st et df]))"
      using out by simp
    moreover have "\<forall>d \<in> set (bs @ [selected st et df]). batch_of st et d"
      using all batch_of_selected [OF ts ty] by simp
    ultimately show ?thesis
      unfolding table_inv_def by blast
  qed
qed

lemma retrieve_loop_table_inv:
  "table_inv st et w \<Longrightarrow> table_inv st et (snd (retrieve_loop env b st et keys w))"
proof (induction keys arbitrary: w)
  case Nil
  then show ?case by simp
next
  case (Cons k keys)
  obtain r w' where pk: "process_key env b st et k w = (r, w')"
    by (cases "process_key env b st et k w")
  from process_key_table_inv [OF Cons.prems, of env b k] pk
  have inv: "table_inv st et w'" by simp
  show ?case
  proof (cases r)
    case (Inl e)
    with pk inv show ?thesis by simp
  next
    case (Inr c)
    with pk inv Cons.IH [OF inv] show ?thesis by (cases c) simp_all
  qed
qed


subsection \<open>The file decides the file\<close>

lemma try_body_same_file:
  assumes "out_file w = out_file w2"
  shows "fst (try_body env b st et k w) = fst (try_body env b st et k w2) \<and>
         out_file (snd (try_body env b st et k w)) = out_file (snd (try_body env b st et k w2))"
proof -
  have "file_lines w = file_lines w2" using assms by (simp add: file_lines_def)
  with assms show ?thesis
    by (auto simp: try_body_def Let_def split: sum.splits position.splits)
qed

lemma fst_handle_exception: "fst (handle_exception e k w) = fst (handle_exception e k w2)"
  by (cases e) (simp_all add: handle_exception_def)

lemma process_key_same_file:
  assumes "out_file w = out_file w2"
  shows "fst (process_key env b st et k w) = fst (process_key env b st et k w2) \<and>
         out_file (snd (process_key env b st et k w)) =
           out_file (snd (process_key env b st et k w2))"
proof -
  obtain r w' where t1: "try_body env b st et k w = (r, w')"
    by (cases "try_body env b st et k w")
  obtain r2 w2' where t2: "try_body env b st et k w2 = (r2, w2')"
    by (cases "try_body env b st et k w2")
  from try_body_same_file [OF assms, of env b st et k] t1 t2
  have "r2 = r" and "out_file w' = out_file w2'" by simp_all
  with t1 t2 fst_handle_exception show ?thesis
    by (cases r) (simp_all add: process_key_def)
qed

lemma retrieve_loop_same_file:
  "out_file w = out_file w2 \<Longrightarrow>
   fst (retrieve_loop env b st et keys w) = fst (retrieve_loop env b st et keys w2) \<and>
   out_file (snd (retrieve_loop env b st et keys w)) =
     out_file (snd (retrieve_loop env b st et keys w2))"
proof (induction keys arbitrary: w w2)
  case Nil
  then show ?case by simp
next
  case (Cons k keys)
  obtain r w' where p1: "process_key env b st et k w = (r, w')"
    by (cases "process_key env b st et k w")
  obtain r2 w2' where p2: "process_key env b st et k w2 = (r2, w2')"
    by (cases "process_key env b st et k w2")
  from process_key_same_file [OF Cons.prems, of env b st et k] p1 p2
  have r: "r2 = r" and f: "out_file w' = out_file w2'" by simp_all
  show ?case
  proof (cases r)
    case (Inl e)
    with p1 p2 r f show ?thesis by simp
  next
    case (Inr c)
    with p1 p2 r f Cons.IH [OF f] show ?thesis by (cases c) simp_all
  qed
qed

lemma retrieve_objects_table_inv:
  assumes "to_datetime s = Inr st" and "to_datetime e = Inr et"
  shows "table_inv st et (snd (retrieve_objects env b keys s e w))"
  using assms retrieve_loop_table_inv [OF table_inv_truncated]
  by (simp add: retrieve_objects_def)

text \<open>
  Claim C3. Every data row that \<^verbatim>\<open>retrieve_objects\<close> leaves in the output file has a
  time stamp inside the closed window, \<open>st \<le> t \<le> et\<close>, and the type
  \<^verbatim>\<open>OrderTradeReportEvent\<close>. The window is given in seconds; \<open>st\<close> and \<open>et\<close> are its
  two ends as pandas holds them.
\<close>

theorem retrieve_objects_filtering:
  assumes "to_datetime s = Inr st" and "to_datetime e = Inr et"
      and "Row kvs \<in> set (file_lines (snd (retrieve_objects env b keys s e w)))"
  shows "row_in_window st et kvs"
proof -
  from retrieve_objects_table_inv [OF assms(1,2), of env b keys w]
  obtain bs where
    "out_file (snd (retrieve_objects env b keys s e w)) = Some (table_of bs)" and
    all: "\<forall>d \<in> set bs. batch_of st et d"
    by (auto simp: table_inv_def)
  then have "file_lines (snd (retrieve_objects env b keys s e w)) = table_of bs"
    by (simp add: file_lines_def)
  with assms(3) all show ?thesis
    by (auto intro: table_of_rows)
qed

subsection \<open>The batches of a run\<close>

lemma fst_try_body: "fst (try_body env b st et k w) = fst (try_body env b st et k w2)"
  by (simp add: try_body_def Let_def split: sum.splits position.splits)

lemma fst_process_key: "fst (process_key env b st et k w) = fst (process_key env b st et k w2)"
proof -
  obtain r w' where t1: "try_body env b st et k w = (r, w')"
    by (cases "try_body env b st et k w")
  obtain r2 w2' where t2: "try_body env b st et k w2 = (r2, w2')"
    by (cases "try_body env b st et k w2")
  from fst_try_body [of env b st et k w w2] t1 t2 have "r2 = r" by simp
  with t1 t2 fst_handle_exception show ?thesis
    by (cases r) (simp_all add: process_key_def)
qed

lemma goes_on_process_key:
  "goes_on env b st et k \<longleftrightarrow> fst (process_key env b st et k w) = Inr Next"
  unfolding goes_on_def
  using fst_process_key [of env b st et k w "\<lparr>out_file = None, stdout = [], s3_calls = []\<rparr>"]
  by simp

lemma try_body_batch:
  "out_file (snd (try_body env b st et k w)) =
     (case key_batch env b st et k of
        None \<Rightarrow> out_file w
      | Some d \<Rightarrow> if df_empty d then out_file w else Some (appended (file_lines w) d))"
  by (simp add: try_body_def key_batch_def Let_def appended_def
           split: sum.splits position.splits)

lemma process_key_batch:
  "out_file (snd (process_key env b st et k w)) =
     (case key_batch env b st et k of
        None \<Rightarrow> out_file w
      | Some d \<Rightarrow> if df_empty d then out_file w else Some (appended (file_lines w) d))"
proof -
  have "out_file (snd (process_key env b st et k w)) = out_file (snd (try_body env b st et k w))"
    by (simp add: process_key_def split: prod.splits sum.splits)
  then show ?thesis by (simp only: try_body_batch)
qed

lemma table_of_snoc:
  "table_of (bs @ [d]) = (if df_empty d then table_of bs else appended (table_of bs) d)"
  by (simp add: appended_table_of) (simp add: table_of_def)

lemma retrieve_loop_batches:
  "out_file w = Some (table_of bs) \<Longrightarrow>
   out_file (snd (retrieve_loop env b st et keys w)) =
     Some (table_of (bs @ batches env b st et keys))"
proof (induction keys arbitrary: w bs)
  case Nil
  then show ?case by simp
next
  case (Cons k keys)
  let ?kb = "case key_batch env b st et k of None \<Rightarrow> [] | Some d \<Rightarrow> [d]"
  obtain r w' where pk: "process_key env b st et k w = (r, w')"
    by (cases "process_key env b st et k w")
  have fl: "file_lines w = table_of bs"
    using Cons.prems by (simp add: file_lines_def)
  have o: "out_file w' = Some (table_of (bs @ ?kb))"
    using process_key_batch [of env b st et k w] pk Cons.prems fl
    by (simp add: table_of_snoc split: option.splits)
  have g: "goes_on env b st et k \<longleftrightarrow> r = Inr Next"
    using goes_on_process_key [of env b st et k w] pk by simp
  show ?case
  proof (cases "r = Inr Next")
    case True
    with pk g Cons.IH [OF o] show ?thesis by simp
  next
    case False
    with g have "batches env b st et (k # keys) = ?kb" by simp
    moreover from False pk have "snd (retrieve_loop env b st et (k # keys) w) = w'"
      by (cases r) (auto split: control.splits)
    ultimately show ?thesis using o by simp
  qed
qed

lemma retrieve_objects_batches:
  assumes "to_datetime s = Inr st" and "to_datetime e = Inr et"
  shows "out_file (snd (retrieve_objects env b keys s e w)) =
           Some (table_of (batches env b st et keys))"
proof -
  have "out_file (w\<lparr>out_file := Some []\<rparr>) = Some (table_of [])"
    by (simp add: table_of_def)
  from retrieve_loop_batches [OF this, of env b st et keys] assms show ?thesis
    by (simp add: retrieve_objects_def)
qed

text \<open>
  Claim C7. After a run the output file holds the table of the batches of the run, where
  the batch of a key is what the two filters leave of its object and the run takes the
  keys up to the one at which the loop ends: nothing when every batch is empty,
  otherwise the header of the first batch that is not empty, once and before every data
  row, followed by the data rows of all batches in order. An empty batch adds nothing.
  The file is emptied before the first write: whatever it held before the run, the
  result is the same.
\<close>

theorem retrieve_objects_header_once:
  assumes "to_datetime s = Inr st" and "to_datetime e = Inr et"
  shows "out_file (snd (retrieve_objects env b keys s e w)) =
           Some (table_of (batches env b st et keys)) \<and>
         header_once (file_lines (snd (retrieve_objects env b keys s e w))) \<and>
         out_file (snd (retrieve_objects env b keys s e (w\<lparr>out_file := old\<rparr>))) =
           Some (table_of (batches env b st et keys))"
  using retrieve_objects_batches [OF assms] header_once_table_of
  by (simp add: file_lines_def)


subsection \<open>Early termination\<close>

lemma window_position_after:
  assumes "''Timestamp'' \<in> set (columns df)" and "rows df \<noteq> []"
      and "after_instant (hd (rows df) ''Timestamp'') et"
      and "\<not> before_instant (last (rows df) ''Timestamp'') st"
  shows "window_position df st et = Inr After \<or> window_position df st et = Inl TypeError"
proof -
  let ?ts = "map (\<lambda>r. r ''Timestamp'') (rows df)"
  have col: "column df ''Timestamp'' = Inr ?ts"
    using assms(1) by (simp add: column_def)
  have l: "iloc_last ?ts = Inr (last (rows df) ''Timestamp'')"
    using assms(2) last_map [of "rows df" "\<lambda>r. r ''Timestamp''"]
    by (cases "rows df") (simp_all add: iloc_last_def)
  have f: "iloc_first ?ts = Inr (hd (rows df) ''Timestamp'')"
    using assms(2) by (cases "rows df") (simp_all add: iloc_first_def)
  have a: "cell_cmp (>) (hd (rows df) ''Timestamp'') et = Inr True"
    using assms(3) by (cases "hd (rows df) ''Timestamp''") (simp_all add: after_instant_def)
  have "cell_cmp (<) (last (rows df) ''Timestamp'') st = Inr False \<or>
        cell_cmp (<) (last (rows df) ''Timestamp'') st = Inl TypeError"
    using assms(4) by (cases "last (rows df) ''Timestamp''") (simp_all add: before_instant_def)
  then show ?thesis
    by (auto simp: window_position_def col l f a)
qed

lemma process_key_stops:
  assumes "fetch_frame env b k = Inr df"
      and "''Timestamp'' \<in> set (columns df)" and "rows df \<noteq> []"
      and "after_instant (hd (rows df) ''Timestamp'') et"
      and "\<not> before_instant (last (rows df) ''Timestamp'') st"
  shows "fst (process_key env b st et k w) \<noteq> Inr Next"
  using window_position_after [OF assms(2-5)] assms(1)
  by (auto simp: process_key_def try_body_def handle_exception_def)

lemma process_key_late:
  assumes "fetch_frame env b k = Inr df"
      and "''Timestamp'' \<in> set (columns df)" and "rows df \<noteq> []"
      and "after_instant (hd (rows df) ''Timestamp'') et"
      and "\<not> before_instant (last (rows df) ''Timestamp'') st"
  shows "process_key env b st et k w = (Inr Stop, log_call (GetObject b k) w) \<or>
         process_key env b st et k w = (Inl TypeError, log_call (GetObject b k) w)"
  using window_position_after [OF assms(2-5)] assms(1)
  by (auto simp: process_key_def try_body_def handle_exception_def)

lemma retrieve_loop_late:
  assumes "\<And>w. process_key env b st et k w = (Inr Stop, log_call (GetObject b k) w) \<or>
               process_key env b st et k w = (Inl TypeError, log_call (GetObject b k) w)"
  shows "snd (retrieve_loop env b st et (pre @ k # post) w) =
           snd (retrieve_loop env b st et pre w) \<or>
         snd (retrieve_loop env b st et (pre @ k # post) w) =
           log_call (GetObject b k) (snd (retrieve_loop env b st et pre w))"
proof (induction pre arbitrary: w)
  case Nil
  from assms [of w] show ?case by auto
next
  case (Cons x pre)
  obtain r w' where pk: "process_key env b st et x w = (r, w')"
    by (cases "process_key env b st et x w")
  show ?case
  proof (cases "r = Inr Next")
    case True
    with pk Cons.IH [of w'] show ?thesis by simp
  next
    case False
    with pk show ?thesis by (cases r) (auto split: control.splits)
  qed
qed

lemma retrieve_loop_stops:
  assumes "\<And>w. fst (process_key env b st et k w) \<noteq> Inr Next"
  shows "retrieve_loop env b st et (pre @ k # post) w = retrieve_loop env b st et (pre @ [k]) w"
proof (induction pre arbitrary: w)
  case Nil
  obtain r w' where pk: "process_key env b st et k w = (r, w')"
    by (cases "process_key env b st et k w")
  with assms [of w] have "r \<noteq> Inr Next" by simp
  with pk show ?case
    by (cases r) (auto split: control.splits)
next
  case (Cons x pre)
  then show ?case
    by (simp split: prod.splits sum.splits control.splits)
qed

text \<open>
  Claim C4, as the program has it. When an object parses, its first record's time stamp
  is after the end of the window and its last record's time stamp is not before the
  start of the window, the loop ends with this object. The keys after it change nothing:
  the run is the run over the keys up to this object. And this object adds nothing but
  its own fetch: the output file and the printed lines are those of the run over the
  keys before it, and the calls made to the store are those of that run, followed by at
  most the one request for this object (none when the loop has ended earlier). (The test
  for ``last before the start'' comes first in the program, and it wins when both tests
  hold.)
\<close>

theorem early_termination:
  assumes "to_datetime s = Inr st" and "to_datetime e = Inr et"
      and "fetch_frame env b k = Inr df"
      and "''Timestamp'' \<in> set (columns df)" and "rows df \<noteq> []"
      and "after_instant (hd (rows df) ''Timestamp'') et"
      and "\<not> before_instant (last (rows df) ''Timestamp'') st"
  shows "retrieve_objects env b (pre @ k # post) s e w = retrieve_objects env b (pre @ [k]) s e w \<and>
         out_file (snd (retrieve_objects env b (pre @ k # post) s e w)) =
           out_file (snd (retrieve_objects env b pre s e w)) \<and>
         stdout (snd (retrieve_objects env b (pre @ k # post) s e w)) =
           stdout (snd (retrieve_objects env b pre s e w)) \<and>
         (s3_calls (snd (retrieve_objects env b (pre @ k # post) s e w)) =
            s3_calls (snd (retrieve_objects env b pre s e w)) \<or>
          s3_calls (snd (retrieve_objects env b (pre @ k # post) s e w)) =
            s3_calls (snd (retrieve_objects env b pre s e w)) @ [GetObject b k])"
proof -
  let ?w = "w\<lparr>out_file := Some []\<rparr>"
  have run: "retrieve_objects env b ks s e w = retrieve_loop env b st et ks ?w" for ks
    using assms(1,2) by (simp add: retrieve_objects_def)
  have "retrieve_loop env b st et (pre @ k # post) ?w = retrieve_loop env b st et (pre @ [k]) ?w"
    by (rule retrieve_loop_stops [OF process_key_stops [OF assms(3-7)]])
  moreover from retrieve_loop_late [OF process_key_late [OF assms(3-7)], of pre post ?w]
  have "snd (retrieve_loop env b st et (pre @ k # post) ?w) =
          snd (retrieve_loop env b st et pre ?w) \<or>
        snd (retrieve_loop env b st et (pre @ k # post) ?w) =
          log_call (GetObject b k) (snd (retrieve_loop env b st et pre ?w))" .
  ultimately show ?thesis
    unfolding run by (auto simp: log_call_def)
qed

lemma fetch_late: "fetch_frame odd_archive ''bkt'' ''late'' = Inr late_frame"
  by (simp add: fetch_frame_def odd_archive_def store_def odd_frames_def)

text \<open>
  A window from 10 s to 50 s and an object whose records are at 60 s, 20 s and 55 s, the
  second of them a trade: the trade of that object is not written although it lies in
  the window, and the two keys after it are not fetched. The one row in the file is that
  of the object before it.
\<close>

theorem early_termination_witness:
  "retrieve_objects odd_archive ''bkt'' ([''trade''] @ ''late'' # [''trade'', ''trade'']) 10 50 fresh_world =
     (Inr (),
      \<lparr>out_file = Some [Header [''Timestamp'', ''Type''],
                        Row [(''Timestamp'', CTime 20000000000),
                             (''Type'', CStr ''OrderTradeReportEvent'')]],
       stdout = [],
       s3_calls = [GetObject ''bkt'' ''trade'', GetObject ''bkt'' ''late'']\<rparr>) \<and>
   retrieve_objects odd_archive ''bkt'' [''trade''] 10 50 fresh_world =
     (Inr (),
      \<lparr>out_file = Some [Header [''Timestamp'', ''Type''],
                        Row [(''Timestamp'', CTime 20000000000),
                             (''Type'', CStr ''OrderTradeReportEvent'')]],
       stdout = [],
       s3_calls = [GetObject ''bkt'' ''trade'']\<rparr>) \<and>
   length (rows (selected 10000000000 50000000000 late_frame)) = 1"
proof -
  have s: "to_datetime 10 = Inr 10000000000" and e: "to_datetime 50 = Inr 50000000000"
    by (simp_all add: to_datetime_def)
  have c: "''Timestamp'' \<in> set (columns late_frame)" and r: "rows late_frame \<noteq> []"
    by (simp_all add: late_frame_def frame_of_records_def)
  have a: "after_instant (hd (rows late_frame) ''Timestamp'') 50000000000"
    by (simp add: late_frame_def frame_of_records_def record_row_def after_instant_def)
  have n: "\<not> before_instant (last (rows late_frame) ''Timestamp'') 10000000000"
    by (simp add: late_frame_def frame_of_records_def record_row_def before_instant_def)
  have v: "retrieve_objects odd_archive ''bkt'' ([''trade''] @ [''late'']) 10 50 fresh_world =
     (Inr (),
      \<lparr>out_file = Some [Header [''Timestamp'', ''Type''],
                        Row [(''Timestamp'', CTime 20000000000),
                             (''Type'', CStr ''OrderTradeReportEvent'')]],
       stdout = [],
       s3_calls = [GetObject ''bkt'' ''trade'', GetObject ''bkt'' ''late'']\<rparr>)"
    by code_simp
  have p: "retrieve_objects odd_archive ''bkt'' [''trade''] 10 50 fresh_world =
     (Inr (),
      \<lparr>out_file = Some [Header [''Timestamp'', ''Type''],
                        Row [(''Timestamp'', CTime 20000000000),
                             (''Type'', CStr ''OrderTradeReportEvent'')]],
       stdout = [],
       s3_calls = [GetObject ''bkt'' ''trade'']\<rparr>)"
    by code_simp
  have t: "length (rows (selected 10000000000 50000000000 late_frame)) = 1"
    by (simp add: selected_def late_frame_def frame_of_records_def record_row_def
          kept_row_def cell_rel_def)
  show ?thesis
    using early_termination [OF s e fetch_late c r a n, of "[''trade'']" "[''trade'', ''trade'']" fresh_world]
    by (simp only: v p t)
qed

text \<open>
  Claim C4 as it is worded does not hold: the first record of \<^verbatim>\<open>unsorted\<close> is at 100 s,
  after the end of the window at 50 s, yet its last record is at 5 s, before the start at
  10 s, so the program goes on to the next key, fetches it and writes its row.
\<close>

theorem early_termination_counterexample:
  "fetch_frame odd_archive ''bkt'' ''unsorted'' = Inr unsorted_frame \<and>
   to_datetime 50 = Inr 50000000000 \<and>
   after_instant (hd (rows unsorted_frame) ''Timestamp'') 50000000000 \<and>
   retrieve_objects odd_archive ''bkt'' [''unsorted'', ''trade''] 10 50 fresh_world =
     (Inr (),
      \<lparr>out_file = Some [Header [''Timestamp'', ''Type''],
                        Row [(''Timestamp'', CTime 20000000000),
                             (''Type'', CStr ''OrderTradeReportEvent'')]],
       stdout = [],
       s3_calls = [GetObject ''bkt'' ''unsorted'', GetObject ''bkt'' ''trade'']\<rparr>)"
proof -
  have "fetch_frame odd_archive ''bkt'' ''unsorted'' = Inr unsorted_frame"
    by (simp add: fetch_frame_def odd_archive_def store_def odd_frames_def)
  moreover have "to_datetime 50 = Inr 50000000000"
    by (simp add: to_datetime_def)
  moreover have "after_instant (hd (rows unsorted_frame) ''Timestamp'') 50000000000"
    by (simp add: unsorted_frame_def frame_of_records_def record_row_def after_instant_def)
  moreover have "retrieve_objects odd_archive ''bkt'' [''unsorted'', ''trade''] 10 50 fresh_world =
     (Inr (),
      \<lparr>out_file = Some [Header [''Timestamp'', ''Type''],
                        Row [(''Timestamp'', CTime 20000000000),
                             (''Type'', CStr ''OrderTradeReportEvent'')]],
       stdout = [],
       s3_calls = [GetObject ''bkt'' ''unsorted'', GetObject ''bkt'' ''trade'']\<rparr>)"
    by code_simp
  ultimately show ?thesis by simp
qed

subsection \<open>Running twice\<close>

lemma list_pages_world:
  assumes "list_pages env b p st tok keys w = Some rw"
  shows "out_file (snd rw) = out_file w \<and>
         (\<forall>w2. \<exists>w2'. list_pages env b p st tok keys w2 = Some (fst rw, w2') \<and>
                      out_file w2' = out_file w2)"
proof (rule list_pages.raw_induct
    [where P = "\<lambda>env b p st tok keys w rw. out_file (snd rw) = out_file w \<and>
         (\<forall>w2. \<exists>w2'. list_pages env b p st tok keys w2 = Some (fst rw, w2') \<and>
                      out_file w2' = out_file w2)", OF _ assms], goal_cases)
  case (1 lp env b p st tok keys w rw)
  let ?w1 = "log_call (ListObjectsV2 b p tok) w"
  show ?case
  proof (cases "list_objects_v2 env b p tok")
    case (Inl ex)
    with 1(2) have "rw = (Inl ex, ?w1)" by simp
    moreover have "list_pages env b p st tok keys w2 =
                     Some (Inl ex, log_call (ListObjectsV2 b p tok) w2)" for w2
      by (subst list_pages.simps) (simp add: Inl)
    ultimately show ?thesis by simp
  next
    case resp: (Inr resp)
    show ?thesis
    proof (cases "Contents resp")
      case None
      with 1(2) resp have "rw = (Inl KeyError, ?w1)" by simp
      moreover have "list_pages env b p st tok keys w2 =
                       Some (Inl KeyError, log_call (ListObjectsV2 b p tok) w2)" for w2
        by (subst list_pages.simps) (simp add: resp None)
      ultimately show ?thesis by simp
    next
      case objs: (Some objs)
      show ?thesis
      proof (cases "scan_page st objs keys")
        case (Inl ex)
        with 1(2) resp objs have "rw = (Inl ex, ?w1)" by simp
        moreover have "list_pages env b p st tok keys w2 =
                         Some (Inl ex, log_call (ListObjectsV2 b p tok) w2)" for w2
          by (subst list_pages.simps) (simp add: resp objs Inl)
        ultimately show ?thesis by simp
      next
        case keys': (Inr keys')
        show ?thesis
        proof (cases "NextContinuationToken resp")
          case None
          with 1(2) resp objs keys' have "rw = (Inr keys', ?w1)" by simp
          moreover have "list_pages env b p st tok keys w2 =
                           Some (Inr keys', log_call (ListObjectsV2 b p tok) w2)" for w2
            by (subst list_pages.simps) (simp add: resp objs keys' None)
          ultimately show ?thesis by simp
        next
          case t: (Some t)
          with 1(2) resp objs keys' have "lp env b p st (Some t) keys' ?w1 = Some rw" by simp
          from 1(1) [OF this]
          have o: "out_file (snd rw) = out_file ?w1" and
            a: "\<And>w2. \<exists>w2'. list_pages env b p st (Some t) keys' w2 = Some (fst rw, w2') \<and>
                              out_file w2' = out_file w2"
            by simp_all
          have step: "list_pages env b p st tok keys w2 =
                      list_pages env b p st (Some t) keys' (log_call (ListObjectsV2 b p tok) w2)" for w2
            by (subst list_pages.simps) (simp add: resp objs keys' t)
          have "\<exists>w2'. list_pages env b p st tok keys w2 = Some (fst rw, w2') \<and>
                      out_file w2' = out_file w2" for w2
            using a [of "log_call (ListObjectsV2 b p tok) w2"] by (simp add: step)
          with o show ?thesis by simp
        qed
      qed
    qed
  qed
qed

lemma retrieve_objects_rerun:
  assumes "out_file w2 = out_file (snd (retrieve_objects env b keys s e w))"
  shows "fst (retrieve_objects env b keys s e w2) = fst (retrieve_objects env b keys s e w) \<and>
         out_file (snd (retrieve_objects env b keys s e w2)) =
           out_file (snd (retrieve_objects env b keys s e w))"
proof (cases "to_datetime s")
  case (Inl ex)
  with assms show ?thesis by (simp add: retrieve_objects_def)
next
  case st: (Inr st)
  show ?thesis
  proof (cases "to_datetime e")
    case (Inl ex)
    with assms st show ?thesis by (simp add: retrieve_objects_def)
  next
    case (Inr et)
    with st retrieve_loop_same_file [of "w2\<lparr>out_file := Some []\<rparr>" "w\<lparr>out_file := Some []\<rparr>"]
    show ?thesis by (simp add: retrieve_objects_def)
  qed
qed

text \<open>
  Claim C9. A complete run of \<^verbatim>\<open>main\<close> followed by a second run with the same command
  line over the same archive, starting from the world the first run left: the second
  run ends the same way and leaves the same output table.
\<close>

theorem main_idempotent:
  assumes "main env a w = Some (r, w1)"
  shows "\<exists>w2. main env a w1 = Some (r, w2) \<and> out_file w2 = out_file w1"
proof (cases "truthy_str (bucket a) \<and> truthy_str (prefix a) \<and>
              truthy_int (start_time a) \<and> truthy_int (end_time a) \<and>
              the (start_time a) < the (end_time a)")
  case False
  with assms show ?thesis
    by (auto simp: main_def Let_def split: if_splits)
next
  case True
  let ?b = "the (bucket a)" and ?p = "the (prefix a)"
  let ?s = "the (start_time a)" and ?e = "the (end_time a)"
  have m: "main env a x =
             (case get_s3_keys env ?b ?p ?s x of
                None \<Rightarrow> None
              | Some (Inl ex, x1) \<Rightarrow> Some (Inl ex, x1)
              | Some (Inr keys, x1) \<Rightarrow> Some (retrieve_objects env ?b keys ?s ?e x1))" for x
    using True by (simp add: main_def Let_def)
  from assms obtain res wl where g: "get_s3_keys env ?b ?p ?s w = Some (res, wl)"
    by (auto simp: m split: option.splits)
  from list_pages_world [OF g [unfolded get_s3_keys_def]]
  have wl: "out_file wl = out_file w" and
    "\<exists>wl'. list_pages env ?b ?p ?s None [] w1 = Some (res, wl') \<and> out_file wl' = out_file w1"
    by simp_all
  then obtain wl' where g': "get_s3_keys env ?b ?p ?s w1 = Some (res, wl')" and
    wl': "out_file wl' = out_file w1"
    by (auto simp: get_s3_keys_def)
  show ?thesis
  proof (cases res)
    case (Inl ex)
    with assms g g' wl' show ?thesis by (simp add: m)
  next
    case (Inr keys)
    with assms g have run: "retrieve_objects env ?b keys ?s ?e wl = (r, w1)"
      by (simp add: m)
    then have "out_file wl' = out_file (snd (retrieve_objects env ?b keys ?s ?e wl))"
      using wl' by simp
    from retrieve_objects_rerun [OF this] run Inr g' show ?thesis
      by (cases "retrieve_objects env ?b keys ?s ?e wl'") (simp add: m)
  qed
qed


subsection \<open>The sample archive\<close>

lemma window_start: "to_datetime 1704067200 = Inr 1704067200000000000"
  by (simp add: to_datetime_def)

lemma window_end: "to_datetime 1704067740 = Inr 1704067740000000000"
  by (simp add: to_datetime_def)

lemma trade_run:
  "retrieve_objects trade_archive ''bkt'' trade_keys 1704067200 1704067740 used_world =
     (Inr (),
      \<lparr>out_file = Some [Header [''Timestamp'', ''Type''],
                        Row [(''Timestamp'', CTime 1704067320000000000),
                             (''Type'', CStr ''OrderTradeReportEvent'')]],
       stdout = [],
       s3_calls = [GetObject ''bkt'' ''logs/2024-01-01_00-00-00_a.json.gz'',
                   GetObject ''bkt'' ''logs/2024-01-01_00-10-00_b.json.gz'']\<rparr>)"
  by code_simp

text \<open>
  The sample archive with the window from 00:00 to 00:09: the one row written is the
  trade of 00:02.
\<close>

theorem retrieve_objects_filtering_witness:
  "Row [(''Timestamp'', CTime 1704067320000000000), (''Type'', CStr ''OrderTradeReportEvent'')]
     \<in> set (file_lines (snd (retrieve_objects trade_archive ''bkt'' trade_keys
                               1704067200 1704067740 used_world))) \<and>
   row_in_window 1704067200000000000 1704067740000000000
     [(''Timestamp'', CTime 1704067320000000000), (''Type'', CStr ''OrderTradeReportEvent'')]"
proof -
  have m: "Row [(''Timestamp'', CTime 1704067320000000000),
                (''Type'', CStr ''OrderTradeReportEvent'')]
     \<in> set (file_lines (snd (retrieve_objects trade_archive ''bkt'' trade_keys
                               1704067200 1704067740 used_world)))"
    by (simp add: trade_run file_lines_def)
  show ?thesis
    using retrieve_objects_filtering [OF window_start window_end m] m by simp
qed

lemma replayed_table:
  "table_of (batches trade_archive ''bkt'' 1704067200000000000 1704067740000000000 replayed_keys) =
          [Header [''Timestamp'', ''Type''],
           Row [(''Timestamp'', CTime 1704067320000000000),
                (''Type'', CStr ''OrderTradeReportEvent'')],
           Row [(''Timestamp'', CTime 1704067320000000000),
                (''Type'', CStr ''OrderTradeReportEvent'')]]"
  by code_simp

lemma replayed_batches:
  "map (\<lambda>d. length (rows d))
     (batches trade_archive ''bkt'' 1704067200000000000 1704067740000000000 replayed_keys) =
   [1, 0, 1]"
  by code_simp

text \<open>
  The sample archive with the first object read a second time after the second, run over
  a file that an earlier run has filled and over no file at all. The three batches have
  one row, no row and one row: the header is written with the first, the second writes
  nothing, the third adds its row without a header, and the lines of the earlier run are
  gone.
\<close>

theorem retrieve_objects_header_once_witness:
  "out_file (snd (retrieve_objects trade_archive ''bkt'' replayed_keys
                    1704067200 1704067740 used_world)) =
     Some [Header [''Timestamp'', ''Type''],
           Row [(''Timestamp'', CTime 1704067320000000000),
                (''Type'', CStr ''OrderTradeReportEvent'')],
           Row [(''Timestamp'', CTime 1704067320000000000),
                (''Type'', CStr ''OrderTradeReportEvent'')]] \<and>
   header_once
          [Header [''Timestamp'', ''Type''],
           Row [(''Timestamp'', CTime 1704067320000000000),
                (''Type'', CStr ''OrderTradeReportEvent'')],
           Row [(''Timestamp'', CTime 1704067320000000000),
                (''Type'', CStr ''OrderTradeReportEvent'')]] \<and>
   out_file (snd (retrieve_objects trade_archive ''bkt'' replayed_keys
                    1704067200 1704067740 (used_world\<lparr>out_file := None\<rparr>))) =
     Some [Header [''Timestamp'', ''Type''],
           Row [(''Timestamp'', CTime 1704067320000000000),
                (''Type'', CStr ''OrderTradeReportEvent'')],
           Row [(''Timestamp'', CTime 1704067320000000000),
                (''Type'', CStr ''OrderTradeReportEvent'')]] \<and>
   map (\<lambda>d. length (rows d))
     (batches trade_archive ''bkt'' 1704067200000000000 1704067740000000000 replayed_keys) =
   [1, 0, 1]"
proof -
  note run = retrieve_objects_header_once
          [OF window_start window_end, of trade_archive "''bkt''" replayed_keys used_world None,
           unfolded replayed_table]
  from run have f: "file_lines (snd (retrieve_objects trade_archive ''bkt'' replayed_keys
                                       1704067200 1704067740 used_world)) =
          [Header [''Timestamp'', ''Type''],
           Row [(''Timestamp'', CTime 1704067320000000000),
                (''Type'', CStr ''OrderTradeReportEvent'')],
           Row [(''Timestamp'', CTime 1704067320000000000),
                (''Type'', CStr ''OrderTradeReportEvent'')]]"
    by (simp add: file_lines_def)
  from run [unfolded f] replayed_batches show ?thesis
    by (simp only: simp_thms)
qed

lemma trade_main:
  "main trade_archive (window_args ''bkt'' ''logs/'' 1704067200 1704067740) used_world =
     Some (Inr (),
      \<lparr>out_file = Some [Header [''Timestamp'', ''Type''],
                        Row [(''Timestamp'', CTime 1704067320000000000),
                             (''Type'', CStr ''OrderTradeReportEvent'')]],
       stdout = [],
       s3_calls = [ListObjectsV2 ''bkt'' ''logs/'' None,
                   ListObjectsV2 ''bkt'' ''logs/'' (Some ''page2''),
                   GetObject ''bkt'' ''logs/2024-01-01_00-00-00_a.json.gz'',
                   GetObject ''bkt'' ''logs/2024-01-01_00-10-00_b.json.gz'']\<rparr>)"
  by code_simp

text \<open>
  The sample archive, run again over the world of its first run.
\<close>

theorem main_idempotent_witness:
  "\<exists>w2. main trade_archive (window_args ''bkt'' ''logs/'' 1704067200 1704067740)
       \<lparr>out_file = Some [Header [''Timestamp'', ''Type''],
                         Row [(''Timestamp'', CTime 1704067320000000000),
                              (''Type'', CStr ''OrderTradeReportEvent'')]],
        stdout = [],
        s3_calls = [ListObjectsV2 ''bkt'' ''logs/'' None,
                    ListObjectsV2 ''bkt'' ''logs/'' (Some ''page2''),
                    GetObject ''bkt'' ''logs/2024-01-01_00-00-00_a.json.gz'',
                    GetObject ''bkt'' ''logs/2024-01-01_00-10-00_b.json.gz'']\<rparr> =
       Some (Inr (), w2) \<and>
     out_file w2 = Some [Header [''Timestamp'', ''Type''],
                         Row [(''Timestamp'', CTime 1704067320000000000),
                              (''Type'', CStr ''OrderTradeReportEvent'')]]"
  using main_idempotent [OF trade_main] by simp

subsection \<open>Splitting and joining\<close>

lemma py_split_not_Nil [simp]: "py_split sep s \<noteq> []"
  by (induction s) (auto split: list.splits)

lemma py_split_free: "sep \<notin> set s \<Longrightarrow> py_split sep s = [s]"
  by (induction s) auto

lemma py_split_append:
  "py_split sep (xs @ sep # ys) = py_split sep xs @ py_split sep ys"
proof (induction xs)
  case Nil
  show ?case by simp
next
  case (Cons c cs)
  obtain w ws where "py_split sep cs = w # ws"
    by (cases "py_split sep cs") simp_all
  with Cons show ?case by simp
qed

lemma py_join_split: "py_join sep (py_split sep s) = s"
proof (induction s)
  case Nil
  show ?case by simp
next
  case (Cons c cs)
  obtain w ws where ws: "py_split sep cs = w # ws"
    by (cases "py_split sep cs") simp_all
  with Cons show ?case
    by (cases ws) auto
qed

lemma py_rsplit_two_extensions:
  assumes "sep \<notin> set e1" and "sep \<notin> set e2"
  shows "hd (py_rsplit sep 2 (stem @ sep # e1 @ sep # e2)) = stem"
proof -
  have parts: "py_split sep (stem @ sep # e1 @ sep # e2) = py_split sep stem @ [e1, e2]"
    using assms by (simp add: py_split_append py_split_free)
  obtain w ws where ws: "py_split sep stem = w # ws"
    by (cases "py_split sep stem") simp_all
  show ?thesis
  proof (cases ws)
    case Nil
    with ws py_join_split [of sep stem] have "w = stem" by simp
    with ws Nil parts show ?thesis by (simp add: py_rsplit_def)
  next
    case (Cons v vs)
    with ws parts py_join_split [of sep stem] show ?thesis
      by (simp add: py_rsplit_def Let_def)
  qed
qed

lemma basename_append:
  assumes "CHR ''/'' \<notin> set name" and "dir = [] \<or> last dir = CHR ''/''"
  shows "basename (dir @ name) = name"
proof -
  have "takeWhile (\<lambda>c. c \<noteq> CHR ''/'') (rev dir) = []"
    using assms(2) by (cases dir rule: rev_cases) auto
  moreover have "takeWhile (\<lambda>c. c \<noteq> CHR ''/'') (rev name @ rev dir) =
                 rev name @ takeWhile (\<lambda>c. c \<noteq> CHR ''/'') (rev dir)"
    using assms(1) by (intro takeWhile_append2) auto
  ultimately show ?thesis by (simp add: basename_def)
qed

subsection \<open>Padded numbers\<close>

lemma of_char_digit_char [simp]: "of_char (digit_char n) = 48 + n mod 10"
proof -
  have "(48 + n mod 10) mod 256 = 48 + n mod 10"
    by (rule mod_less) (simp add: less_le_trans [OF add_strict_left_mono [OF mod_less_divisor]])
  then show ?thesis by (simp add: digit_char_def)
qed

lemma is_digit_digit_char [simp]: "is_digit (digit_char n)"
  by (simp add: is_digit_def)

lemma not_is_space_digit_char [simp]: "\<not> is_space (digit_char n)"
proof -
  have "n mod 10 < 10" by simp
  then show ?thesis
    unfolding is_space_def Let_def of_char_digit_char by arith
qed

lemma digit_val_digit_char [simp]: "digit_val (digit_char n) = int (n mod 10)"
  by (simp add: digit_val_def)

lemma digit_char_neq: "\<not> is_digit c \<Longrightarrow> digit_char n \<noteq> c"
  by auto

lemma separators_not_digits [simp]:
  "\<not> is_digit (CHR ''_'')" "\<not> is_digit (CHR ''-'')" "\<not> is_digit (CHR ''.'')"
  "\<not> is_digit (CHR ''/'')" "\<not> is_digit (CHR ''+'')"
  by (simp_all add: is_digit_def)

lemma pad2_free: "\<not> is_digit c \<Longrightarrow> c \<notin> set (pad2 n)"
  by (auto simp: pad2_def)

lemma pad4_free: "\<not> is_digit c \<Longrightarrow> c \<notin> set (pad4 n)"
  by (auto simp: pad4_def)

lemma two_digits:
  fixes m :: nat
  assumes "m < 100"
  shows "m div 10 mod 10 * 10 + m mod 10 = m"
proof -
  have "m div 10 < 10" using assms by simp
  then have "m div 10 mod 10 = m div 10" by simp
  with div_mult_mod_eq [of m 10] show ?thesis by simp
qed

lemma four_digits:
  fixes m :: nat
  assumes "m < 10000"
  shows "((m div 1000 mod 10 * 10 + m div 100 mod 10) * 10 + m div 10 mod 10) * 10 + m mod 10 = m"
proof -
  have a: "m div 10 div 10 = m div 100" and b: "m div 100 div 10 = m div 1000"
    by (simp_all add: div_mult2_eq [symmetric])
  have "m div 1000 < 10" using assms by simp
  then have c: "m div 1000 mod 10 = m div 1000" by simp
  have e0: "m div 10 * 10 + m mod 10 = m"
    by (rule div_mult_mod_eq)
  have e1: "m div 100 * 10 + m div 10 mod 10 = m div 10"
    using div_mult_mod_eq [of "m div 10" 10] by (simp add: a)
  have e2: "m div 1000 * 10 + m div 100 mod 10 = m div 100"
    using div_mult_mod_eq [of "m div 100" 10] by (simp add: b)
  show ?thesis
    unfolding c e2 e1 e0 ..
qed

lemma py_int_pad2:
  assumes "0 \<le> n" and "n < 100"
  shows "py_int (pad2 n) = Inr n"
proof -
  have strip: "py_strip (pad2 n) = pad2 n"
    by (simp add: py_strip_def pad2_def)
  have groups: "py_split (CHR ''_'') (pad2 n) = [pad2 n]"
    by (rule py_split_free) (simp add: pad2_free)
  have lt: "nat n < 100" using assms by simp
  have v: "digits_value (pad2 n) = int (nat n div 10 mod 10) * 10 + int (nat n mod 10)"
    by (simp add: digits_value_def pad2_def)
  have t: "int (nat n div 10 mod 10) * 10 + int (nat n mod 10) =
           int (nat n div 10 mod 10 * 10 + nat n mod 10)"
    by simp
  have val: "digits_value (pad2 n) = n"
    unfolding v t two_digits [OF lt] using assms by simp
  have "parse_digits (pad2 n) = Inr n"
    using val by (simp add: parse_digits_def groups) (simp add: pad2_def)
  then show ?thesis
    using digit_char_neq [of "CHR ''-''"] digit_char_neq [of "CHR ''+''"]
    by (simp add: py_int_def strip) (simp add: pad2_def)
qed

lemma py_int_pad4:
  assumes "0 \<le> n" and "n < 10000"
  shows "py_int (pad4 n) = Inr n"
proof -
  have strip: "py_strip (pad4 n) = pad4 n"
    by (simp add: py_strip_def pad4_def)
  have groups: "py_split (CHR ''_'') (pad4 n) = [pad4 n]"
    by (rule py_split_free) (simp add: pad4_free)
  have lt: "nat n < 10000" using assms by simp
  have v: "digits_value (pad4 n) =
             ((int (nat n div 1000 mod 10) * 10 + int (nat n div 100 mod 10)) * 10 +
              int (nat n div 10 mod 10)) * 10 + int (nat n mod 10)"
    by (simp add: digits_value_def pad4_def)
  have t: "((int (nat n div 1000 mod 10) * 10 + int (nat n div 100 mod 10)) * 10 +
              int (nat n div 10 mod 10)) * 10 + int (nat n mod 10) =
           int (((nat n div 1000 mod 10 * 10 + nat n div 100 mod 10) * 10 +
              nat n div 10 mod 10) * 10 + nat n mod 10)"
    by simp
  have val: "digits_value (pad4 n) = n"
    unfolding v t four_digits [OF lt] using assms by simp
  have "parse_digits (pad4 n) = Inr n"
    using val by (simp add: parse_digits_def groups) (simp add: pad4_def)
  then show ?thesis
    using digit_char_neq [of "CHR ''-''"] digit_char_neq [of "CHR ''+''"]
    by (simp add: py_int_def strip) (simp add: pad4_def)
qed


subsection \<open>Counting days\<close>

lemma step_div:
  fixes y k :: int
  assumes "0 < k"
  shows "y div k = (y - 1) div k + (if y mod k = 0 then 1 else 0)"
proof -
  have eq: "k * (y div k) + y mod k = y"
    by (rule mult_div_mod_eq)
  show ?thesis
  proof (cases "y mod k = 0")
    case True
    have "y - 1 = k * (y div k - 1) + (k - 1)"
      using eq True by (simp add: algebra_simps)
    then have "(y - 1) div k = y div k - 1"
      by (rule int_div_pos_eq) (simp_all add: assms)
    with True show ?thesis by simp
  next
    case False
    have r: "0 \<le> y mod k" "y mod k < k"
      using assms by simp_all
    have "y - 1 = k * (y div k) + (y mod k - 1)"
      using eq by simp
    then have "(y - 1) div k = y div k"
      by (rule int_div_pos_eq) (use r False in simp_all)
    with False show ?thesis by simp
  qed
qed

lemma dvd_chain:
  fixes y :: int
  shows "y mod 100 = 0 \<Longrightarrow> y mod 4 = 0" and "y mod 400 = 0 \<Longrightarrow> y mod 100 = 0"
proof -
  have "(4::int) dvd 100" and "(100::int) dvd 400" by simp_all
  then show "y mod 100 = 0 \<Longrightarrow> y mod 4 = 0" and "y mod 400 = 0 \<Longrightarrow> y mod 100 = 0"
    by (auto simp flip: dvd_eq_mod_eq_0 elim: dvd_trans)
qed

lemma leap_arith:
  fixes y a b c :: int
  assumes "pb \<Longrightarrow> pa" and "pc \<Longrightarrow> pb"
  shows "y * 365 + (a + (if pa then 1 else 0)) - (b + (if pb then 1 else 0)) +
           (c + (if pc then 1 else 0)) =
         (y - 1) * 365 + a - b + c + (if pa \<and> (\<not> pb \<or> pc) then 366 else 365)"
  using assms by (cases pa; cases pb; cases pc) (simp_all add: algebra_simps)

lemma days_before_next_year: "days_before_year (y + 1) = days_before_year y + year_length y"
proof -
  have q4: "y div 4 = (y - 1) div 4 + (if y mod 4 = 0 then 1 else 0)"
    by (rule step_div) simp
  have q100: "y div 100 = (y - 1) div 100 + (if y mod 100 = 0 then 1 else 0)"
    by (rule step_div) simp
  have q400: "y div 400 = (y - 1) div 400 + (if y mod 400 = 0 then 1 else 0)"
    by (rule step_div) simp
  have "days_before_year (y + 1) = y * 365 + y div 4 - y div 100 + y div 400"
    by (simp add: days_before_year_def)
  also have "\<dots> = y * 365 + ((y - 1) div 4 + (if y mod 4 = 0 then 1 else 0)) -
                    ((y - 1) div 100 + (if y mod 100 = 0 then 1 else 0)) +
                    ((y - 1) div 400 + (if y mod 400 = 0 then 1 else 0))"
    using q4 q100 q400 by (simp only:)
  also have "\<dots> = (y - 1) * 365 + (y - 1) div 4 - (y - 1) div 100 + (y - 1) div 400 +
                    (if y mod 4 = 0 \<and> (\<not> y mod 100 = 0 \<or> y mod 400 = 0) then 366 else 365)"
    by (rule leap_arith [where pa = "y mod 4 = 0" and pb = "y mod 100 = 0" and pc = "y mod 400 = 0"])
       (erule dvd_chain(1), erule dvd_chain(2))
  also have "\<dots> = days_before_year y + year_length y"
    by (simp only: days_before_year_def Let_def year_length_def is_leap_def)
  finally show ?thesis .
qed


lemma days_before_year_count:
  "1 \<le> y \<Longrightarrow> days_before_year y = (\<Sum>y' \<leftarrow> [1 .. y - 1]. year_length y')"
proof (induction y rule: int_ge_induct)
  case base
  show ?case by (simp add: days_before_year_def)
next
  case (step y)
  have "[1 .. y + 1 - 1] = [1 .. y - 1] @ [y]"
    using step.hyps upto_rec2 [of 1 y] by simp
  with step.IH days_before_next_year [of y] show ?case by simp
qed

lemma upto_as_upt: "map int [1 ..< nat m] = [1 .. m - 1]"
proof (cases "1 \<le> m")
  case True
  then show ?thesis
  proof (induction m rule: int_ge_induct)
    case base
    show ?case by simp
  next
    case (step i)
    have "[1 .. i + 1 - 1] = [1 .. i - 1] @ [i]"
      using step.hyps upto_rec2 [of 1 i] by simp
    moreover have "[1 ..< nat (i + 1)] = [1 ..< nat i] @ [nat i]"
      using step.hyps by (simp add: nat_add_distrib)
    ultimately show ?case using step by simp
  qed
next
  case False
  then show ?thesis by simp
qed

lemma days_before_month_count:
  "days_before_month y m = (\<Sum>m' \<leftarrow> [1 .. m - 1]. days_in_month y m')"
proof -
  have "map (\<lambda>k. days_in_month y (int k)) [1 ..< nat m] =
        map (days_in_month y) (map int [1 ..< nat m])"
    by simp
  then show ?thesis
    by (simp only: days_before_month_def upto_as_upt)
qed

lemma day_number_ord:
  assumes "1 \<le> y"
  shows "day_number y mo d = ymd2ord y mo d - 1"
  using assms days_before_year_count [of y]
  by (simp add: day_number_def ymd2ord_def days_before_month_count)

lemma day_number_epoch: "day_number 1970 1 1 = 719162"
proof -
  have "day_number 1970 1 1 = ymd2ord 1970 1 1 - 1"
    by (rule day_number_ord) simp
  also have "\<dots> = 719162"
    by (simp add: ymd2ord_def days_before_year_def days_before_month_def)
  finally show ?thesis .
qed

lemma utc_timestamp_counts:
  assumes "1 \<le> y"
  shows "utc_timestamp y mo d h mi s = epoch_seconds y mo d h mi s"
  by (simp add: utc_timestamp_def epoch_seconds_def day_number_ord [OF assms] day_number_epoch)

subsection \<open>Keys that follow the convention\<close>

lemma py_split_three:
  assumes "sep \<notin> set a" and "sep \<notin> set b" and "sep \<notin> set c"
  shows "py_split sep (a @ sep # b @ sep # c) = [a, b, c]"
  using assms by (simp add: py_split_append py_split_free)

lemma int_triple_date:
  assumes "0 \<le> a" and "a < 10000" and "0 \<le> b" and "b < 100" and "0 \<le> c" and "c < 100"
  shows "int_triple (pad4 a @ ''-'' @ pad2 b @ ''-'' @ pad2 c) = Inr (a, b, c)"
proof -
  have "py_split (CHR ''-'') (pad4 a @ CHR ''-'' # pad2 b @ CHR ''-'' # pad2 c) =
          [pad4 a, pad2 b, pad2 c]"
    by (simp add: py_split_append py_split_free pad2_free pad4_free)
  then show ?thesis
    using assms by (simp add: int_triple_def py_int_pad2 py_int_pad4)
qed

lemma int_triple_time:
  assumes "0 \<le> a" and "a < 100" and "0 \<le> b" and "b < 100" and "0 \<le> c" and "c < 100"
  shows "int_triple (pad2 a @ ''-'' @ pad2 b @ ''-'' @ pad2 c) = Inr (a, b, c)"
proof -
  have "py_split (CHR ''-'') (pad2 a @ CHR ''-'' # pad2 b @ CHR ''-'' # pad2 c) =
          [pad2 a, pad2 b, pad2 c]"
    by (simp add: py_split_append py_split_free pad2_free)
  then show ?thesis
    using assms by (simp add: int_triple_def py_int_pad2)
qed

lemma days_in_month_le: "days_in_month y m \<le> 31"
  by (simp add: days_in_month_def)

text \<open>
  Claim C5. For a key whose basename follows the convention
  \<^verbatim>\<open><YYYY-MM-DD>_<HH-MM-SS>_<discriminator>.<ext1>.<ext2>\<close> with a date and a time that
  exist, \<^verbatim>\<open>get_last_timestamp\<close> returns the seconds from the epoch to that instant in UTC,
  whatever the directory part of the key and whatever the two extensions. The
  discriminator holds no underscore, the extensions hold no dot, and none of them holds
  a slash.
\<close>

theorem get_last_timestamp_conforming:
  assumes "valid_datetime y mo d h mi s"
      and "CHR ''_'' \<notin> set disc" and "CHR ''/'' \<notin> set disc"
      and "CHR ''.'' \<notin> set ext1" and "CHR ''/'' \<notin> set ext1"
      and "CHR ''.'' \<notin> set ext2" and "CHR ''/'' \<notin> set ext2"
      and "dir = [] \<or> last dir = CHR ''/''"
  shows "get_last_timestamp (dir @ key_name y mo d h mi s disc ext1 ext2) =
           Inr (epoch_seconds y mo d h mi s)"
proof -
  let ?date = "pad4 y @ ''-'' @ pad2 mo @ ''-'' @ pad2 d"
  let ?time = "pad2 h @ ''-'' @ pad2 mi @ ''-'' @ pad2 s"
  let ?stem = "key_stem y mo d h mi s disc"
  let ?name = "key_name y mo d h mi s disc ext1 ext2"
  have stem: "?stem = ?date @ CHR ''_'' # ?time @ CHR ''_'' # disc"
    by (simp add: key_stem_def)
  have name: "?name = ?stem @ CHR ''.'' # ext1 @ CHR ''.'' # ext2"
    by (simp add: key_name_def)
  have "CHR ''/'' \<notin> set ?name"
    using assms(3,5,7) by (simp add: key_name_def key_stem_def pad2_free pad4_free)
  then have base: "basename (dir @ ?name) = ?name"
    using assms(8) by (rule basename_append)
  have cut: "hd (py_rsplit (CHR ''.'') 2 ?name) = ?stem"
    unfolding name using assms(4,6) by (rule py_rsplit_two_extensions)
  have "CHR ''_'' \<notin> set ?date" and "CHR ''_'' \<notin> set ?time"
    by (simp_all add: pad2_free pad4_free)
  then have tokens: "py_split (CHR ''_'') ?stem = [?date, ?time, disc]"
    unfolding stem using assms(2) by (rule py_split_three)
  from assms(1) days_in_month_le [of y mo]
  have b: "0 \<le> y" "y < 10000" "0 \<le> mo" "mo < 100" "0 \<le> d" "d < 100"
    and c: "0 \<le> h" "h < 100" "0 \<le> mi" "mi < 100" "0 \<le> s" "s < 100"
    by (simp_all add: valid_datetime_def)
  have date: "int_triple ?date = Inr (y, mo, d)"
    by (rule int_triple_date [OF b])
  have time: "int_triple ?time = Inr (h, mi, s)"
    by (rule int_triple_time [OF c])
  have fits: "c_int y" "c_int mo" "c_int d" "c_int h" "c_int mi" "c_int s"
    using b c by (simp_all add: c_int_def)
  have "1 \<le> y" using assms(1) by (simp add: valid_datetime_def)
  then have "utc_timestamp y mo d h mi s = epoch_seconds y mo d h mi s"
    by (rule utc_timestamp_counts)
  then show ?thesis
    using assms(1)
    by (simp add: get_last_timestamp_def base cut tokens date time datetime_timestamp_def fits
             del: append_assoc append.simps)
qed

text \<open>
  A key under a nested prefix, on a leap day, with a dot in its discriminator.
\<close>

theorem get_last_timestamp_conforming_witness:
  "get_last_timestamp ''archive/2024/logs/2024-02-29_23-59-07_batch.7.json.gz'' = Inr 1709251147"
proof -
  have v: "valid_datetime 2024 2 29 23 59 7"
    by (simp add: valid_datetime_def days_in_month_def is_leap_def)
  have k: "''archive/2024/logs/'' @ key_name 2024 2 29 23 59 7 ''batch.7'' ''json'' ''gz'' =
           ''archive/2024/logs/2024-02-29_23-59-07_batch.7.json.gz''"
    by code_simp
  have "utc_timestamp 2024 2 29 23 59 7 = 1709251147"
    by code_simp
  then have t: "epoch_seconds 2024 2 29 23 59 7 = 1709251147"
    using utc_timestamp_counts [of 2024 2 29 23 59 7] by simp
  show ?thesis
    using get_last_timestamp_conforming [OF v, of "''batch.7''" "''json''" "''gz''" "''archive/2024/logs/''"]
    by (simp only: k t) simp
qed

end
